theory Spec2Isabelle
  imports Complex_Main "HOL-Library.Multiset"
begin

section \<open>Arithmetic and vectors\<close>

text \<open>
  The sources compute with C++ \<open>double\<close>.  There are two models.  The first computes
  with exact reals: it says what the code computes when no operation rounds, overflows or
  meets NaN, and the one special value it needs, \<open>INFINITY\<close> as the initial minimum of a
  search, is \<open>None\<close> of an option.  The second, in the sections on double arithmetic,
  computes with IEEE 754 doubles.  \<open>Vector3\<close> is the three-component vector of the geometry
  library.
\<close>

datatype Vector3 = Vector3 (vx: real) (vy: real) (vz: real)

definition v_zero :: Vector3 where
  "v_zero = Vector3 0 0 0"

definition v_add :: "Vector3 \<Rightarrow> Vector3 \<Rightarrow> Vector3" where
  "v_add a b = Vector3 (vx a + vx b) (vy a + vy b) (vz a + vz b)"

definition v_sub :: "Vector3 \<Rightarrow> Vector3 \<Rightarrow> Vector3" where
  "v_sub a b = Vector3 (vx a - vx b) (vy a - vy b) (vz a - vz b)"

definition v_smult :: "real \<Rightarrow> Vector3 \<Rightarrow> Vector3" where
  "v_smult s a = Vector3 (s * vx a) (s * vy a) (s * vz a)"

definition v_sdiv :: "Vector3 \<Rightarrow> real \<Rightarrow> Vector3" where
  "v_sdiv a s = Vector3 (vx a / s) (vy a / s) (vz a / s)"

definition v_norm :: "Vector3 \<Rightarrow> real" where
  "v_norm a = sqrt (vx a * vx a + vy a * vy a + vz a * vz a)"

text \<open>Errors of the model: \<open>exit(1)\<close> on an invalid axis, and an access outside a vector.\<close>

datatype error = InvalidAxis | OutOfBounds

section \<open>bvh_6d.cpp: the 6D bounding volume hierarchy\<close>

record MassNormalPoint =
  mass :: real
  normal :: Vector3
  point :: Vector3
  elementID :: nat

datatype BVHNodeType = Empty | Leaf | Interior

text \<open>
  The node fields that the constructor, \<open>averageDataFromChildren\<close> and
  \<open>assignIDsRecursively\<close> write and that the properties below read.  The bounding box
  (which the constructor leaves unset in an empty node), the average normal, the split
  point and the back pointer to the root are left out.  \<open>nodeID\<close> is 0 until
  \<open>assignIDsRecursively\<close> writes it.
\<close>

datatype BVHNode6D = BVHNode6D
  (nodeType: BVHNodeType)
  (nodeID: nat)
  (splitAxis: int)
  (totalMass: real)
  (centerOfMass: Vector3)
  (node_elementID: int)
  (numNodesInBranch: nat)
  (children: "BVHNode6D list")

definition NextAxis :: "int \<Rightarrow> int" where
  "NextAxis axis =
    (if axis = 0 then 1
     else if axis = 1 then 2
     else if axis = 2 then 0
     else 0)"

definition GetCoordFromBody :: "MassNormalPoint \<Rightarrow> int \<Rightarrow> error + real" where
  "GetCoordFromBody mp axis =
    (if axis = 0 then Inr (vx (point mp))
     else if axis = 1 then Inr (vy (point mp))
     else if axis = 2 then Inr (vz (point mp))
     else if axis = 3 then Inr (vx (normal mp))
     else if axis = 4 then Inr (vy (normal mp))
     else if axis = 5 then Inr (vz (normal mp))
     else Inl InvalidAxis)"

text \<open>The first loop of \<open>AxisSplittingPlane\<close>: the coordinate of every body.\<close>

fun body_coords :: "MassNormalPoint list \<Rightarrow> int \<Rightarrow> error + real list" where
  "body_coords [] axis = Inr []"
| "body_coords (p # ps) axis =
    (case GetCoordFromBody p axis of
       Inl e \<Rightarrow> Inl e
     | Inr c \<Rightarrow> (case body_coords ps axis of Inl e \<Rightarrow> Inl e | Inr cs \<Rightarrow> Inr (c # cs)))"

text \<open>The body of the second loop: \<open>sumSquares\<close> of candidate \<open>i\<close> on the sorted coordinates.\<close>

definition sumSquares :: "real list \<Rightarrow> nat \<Rightarrow> real" where
  "sumSquares coords i =
    (let nPoints = length coords;
         width1 = coords ! i - coords ! 0;
         width2 = (if i = nPoints - 1 then 0 else coords ! (nPoints - 1) - coords ! (i + 1))
     in width1 * width1 + width2 * width2)"

text \<open>
  The second loop, over the candidate indices in order, with the state
  \<open>(splitIndex, minWidths)\<close>; \<open>minWidths = None\<close> is \<open>INFINITY\<close>.
\<close>

fun split_scan :: "real list \<Rightarrow> nat list \<Rightarrow> nat \<times> real option \<Rightarrow> nat \<times> real option" where
  "split_scan coords [] st = st"
| "split_scan coords (i # rest) (splitIndex, minWidths) =
    (if (case minWidths of None \<Rightarrow> True | Some m \<Rightarrow> sumSquares coords i < m)
     then split_scan coords rest (i, Some (sumSquares coords i))
     else split_scan coords rest (splitIndex, minWidths))"

text \<open>
  \<open>size_t splitIndex = -1\<close> is the largest 64-bit value.  \<open>splitIndex + 1\<close> could wrap
  around only from that initial value, and then the access \<open>coords[splitIndex]\<close> before
  it is already outside the vector; so the sum is written without the wrap.
\<close>

definition SIZE_MAX :: nat where
  "SIZE_MAX = 2 ^ 64 - 1"

definition chosen_splitIndex :: "real list \<Rightarrow> nat" where
  "chosen_splitIndex coords = fst (split_scan coords [0..<length coords] (SIZE_MAX, None))"

definition coord_at :: "real list \<Rightarrow> nat \<Rightarrow> error + real" where
  "coord_at coords i = (if i < length coords then Inr (coords ! i) else Inl OutOfBounds)"

definition AxisSplittingPlane :: "MassNormalPoint list \<Rightarrow> int \<Rightarrow> error + real" where
  "AxisSplittingPlane points axis =
    (case body_coords points axis of
       Inl e \<Rightarrow> Inl e
     | Inr cs \<Rightarrow>
        (let coords = sort cs;
             splitIndex = chosen_splitIndex coords
         in case coord_at coords splitIndex of
              Inl e \<Rightarrow> Inl e
            | Inr a \<Rightarrow>
               (case coord_at coords (splitIndex + 1) of
                  Inl e \<Rightarrow> Inl e
                | Inr b \<Rightarrow> Inr ((a + b) / 2))))"

text \<open>The loop that splits the bodies over the plane, appending to the two vectors.\<close>

fun split_points ::
  "MassNormalPoint list \<Rightarrow> int \<Rightarrow> real \<Rightarrow> MassNormalPoint list \<times> MassNormalPoint list \<Rightarrow>
   error + (MassNormalPoint list \<times> MassNormalPoint list)" where
  "split_points [] axis splitPoint acc = Inr acc"
| "split_points (p # ps) axis splitPoint (lesserPoints, greaterPoints) =
    (case GetCoordFromBody p axis of
       Inl e \<Rightarrow> Inl e
     | Inr coord \<Rightarrow>
        (if coord \<le> splitPoint
         then split_points ps axis splitPoint (lesserPoints @ [p], greaterPoints)
         else split_points ps axis splitPoint (lesserPoints, greaterPoints @ [p])))"

text \<open>
  \<open>averageDataFromChildren\<close>: the new \<open>totalMass\<close> and \<open>centerOfMass\<close> of a node from
  its children.  Where the total mass is zero the source divides by zero, which exact
  arithmetic leaves undefined: the exact model is used for positive masses only, and the
  model in double arithmetic gives the NaN of the code.
\<close>

definition averageDataFromChildren :: "BVHNode6D list \<Rightarrow> real \<times> Vector3" where
  "averageDataFromChildren cs =
    (let (m, c) = foldl (\<lambda>(m, c) child.
                      (m + totalMass child,
                       v_add c (v_smult (totalMass child) (centerOfMass child))))
                    (0, v_zero) cs
     in (m, v_sdiv c m))"

text \<open>
  The constructor.  It recurses on the two halves with no bound on the depth, so it is a
  partial function: \<open>None\<close> is a recursion that never returns, \<open>Some (Inl e)\<close> an error.
\<close>

partial_function (option) BVHNode6D_ctor ::
  "MassNormalPoint list \<Rightarrow> int \<Rightarrow> (error + BVHNode6D) option" where
  "BVHNode6D_ctor points axis =
    (if length points = 0
     then Some (Inr (BVHNode6D Empty 0 axis 0 v_zero (- 1) 1 []))
     else if length points = 1
     then Some (Inr (BVHNode6D Leaf 0 axis (mass (points ! 0)) (point (points ! 0))
                       (int (elementID (points ! 0))) 1 []))
     else
      (case AxisSplittingPlane points axis of
         Inl e \<Rightarrow> Some (Inl e)
       | Inr splitPoint \<Rightarrow>
          (case split_points points axis splitPoint ([], []) of
             Inl e \<Rightarrow> Some (Inl e)
           | Inr (lesserPoints, greaterPoints) \<Rightarrow>
              Option.bind (BVHNode6D_ctor lesserPoints (NextAxis axis)) (\<lambda>r1.
                case r1 of
                  Inl e \<Rightarrow> Some (Inl e)
                | Inr lesserNode \<Rightarrow>
                   Option.bind (BVHNode6D_ctor greaterPoints (NextAxis axis)) (\<lambda>r2.
                     case r2 of
                       Inl e \<Rightarrow> Some (Inl e)
                     | Inr greaterNode \<Rightarrow>
                        Some (Inr (BVHNode6D Interior 0 axis
                          (fst (averageDataFromChildren [lesserNode, greaterNode]))
                          (snd (averageDataFromChildren [lesserNode, greaterNode]))
                          (- 1)
                          (numNodesInBranch lesserNode + numNodesInBranch greaterNode + 1)
                          [lesserNode, greaterNode])))))))"

text \<open>\<open>assignIDsRecursively\<close>: pre-order numbering; returns the node and the next free ID.\<close>

fun assignIDsRecursively :: "BVHNode6D \<Rightarrow> nat \<Rightarrow> BVHNode6D \<times> nat"
  and assignIDs_children :: "BVHNode6D list \<Rightarrow> nat \<Rightarrow> BVHNode6D list \<times> nat" where
  "assignIDsRecursively (BVHNode6D ty i ax m c e k cs) startID =
     (if ty = Interior
      then (let (cs', nextID) = assignIDs_children cs (startID + 1)
            in (BVHNode6D ty startID ax m c e k cs', nextID))
      else (BVHNode6D ty startID ax m c e k cs, startID + 1))"
| "assignIDs_children [] nextID = ([], nextID)"
| "assignIDs_children (child # rest) nextID =
     (let (child', n1) = assignIDsRecursively child nextID;
          (rest', n2) = assignIDs_children rest n1
      in (child' # rest', n2))"

text \<open>
  \<open>Create6DBVHFromMesh\<close>, from the vector \<open>verts\<close> of face bodies that its first loop
  fills (entry \<open>i\<close> is the body of the face with index \<open>i\<close>; the mesh itself is the
  geometry library's).
\<close>

definition Create6DBVHFromMesh :: "MassNormalPoint list \<Rightarrow> (error + BVHNode6D) option" where
  "Create6DBVHFromMesh verts =
    Option.bind (BVHNode6D_ctor verts 0) (\<lambda>r.
      case r of
        Inl e \<Rightarrow> Some (Inl e)
      | Inr tree \<Rightarrow> Some (Inr (fst (assignIDsRecursively tree 0))))"

text \<open>All nodes of a tree, the root first, and the (mass, barycenter) of its leaves.\<close>

fun nodes_of :: "BVHNode6D \<Rightarrow> BVHNode6D list" where
  "nodes_of (BVHNode6D ty i ax m c e k cs) =
     BVHNode6D ty i ax m c e k cs # concat (map nodes_of cs)"

fun leaf_bodies :: "BVHNode6D \<Rightarrow> (real \<times> Vector3) list" where
  "leaf_bodies (BVHNode6D ty i ax m c e k cs) =
     (if ty = Leaf then [(m, c)] else concat (map leaf_bodies cs))"

text \<open>Notions used to state the properties: the axes that \<open>GetCoordFromBody\<close> accepts,
  the coordinate it returns for them, the split value of sorted coordinates, and a set of
  bodies that has a single coordinate on an axis.\<close>

definition valid_axis :: "int \<Rightarrow> bool" where
  "valid_axis a = (0 \<le> a \<and> a \<le> 5)"

definition coordOf :: "int \<Rightarrow> MassNormalPoint \<Rightarrow> real" where
  "coordOf a p = (case GetCoordFromBody p a of Inr c \<Rightarrow> c | Inl e \<Rightarrow> 0)"

definition split_value :: "real list \<Rightarrow> real" where
  "split_value coords =
     (coords ! chosen_splitIndex coords + coords ! (chosen_splitIndex coords + 1)) / 2"

definition const_on :: "int \<Rightarrow> MassNormalPoint list \<Rightarrow> bool" where
  "const_on a ps = (list_all (\<lambda>p. list_all (\<lambda>q. coordOf a p = coordOf a q) ps) ps)"

text \<open>The interior node that the constructor returns for two built children.\<close>

definition Interior_of :: "int \<Rightarrow> BVHNode6D \<Rightarrow> BVHNode6D \<Rightarrow> BVHNode6D" where
  "Interior_of axis lesserNode greaterNode =
     BVHNode6D Interior 0 axis
       (fst (averageDataFromChildren [lesserNode, greaterNode]))
       (snd (averageDataFromChildren [lesserNode, greaterNode]))
       (- 1)
       (numNodesInBranch lesserNode + numNodesInBranch greaterNode + 1)
       [lesserNode, greaterNode]"

text \<open>Every child of every node of the tree has the split axis that follows its parent's.\<close>

definition axes_advance :: "BVHNode6D \<Rightarrow> bool" where
  "axes_advance t =
     list_all (\<lambda>N. list_all (\<lambda>c. splitAxis c = NextAxis (splitAxis N)) (children N)) (nodes_of t)"

text \<open>
  The sum of the leaf masses under a node, the sum of the mass-weighted leaf barycenters,
  and the property of one node: its total mass is the first, its centre times its mass
  is the second, and its centre is their quotient (the mass-weighted mean) unless the
  node is empty, where the centre is the zero vector.
\<close>

definition v_sum :: "Vector3 list \<Rightarrow> Vector3" where
  "v_sum vs = foldr v_add vs v_zero"

definition leaf_mass :: "BVHNode6D \<Rightarrow> real" where
  "leaf_mass N = sum_list (map fst (leaf_bodies N))"

definition leaf_moment :: "BVHNode6D \<Rightarrow> Vector3" where
  "leaf_moment N = v_sum (map (\<lambda>(m, x). v_smult m x) (leaf_bodies N))"

definition mass_centre_ok :: "BVHNode6D \<Rightarrow> bool" where
  "mass_centre_ok N =
     (totalMass N = leaf_mass N \<and>
      v_smult (totalMass N) (centerOfMass N) = leaf_moment N \<and>
      (if nodeType N = Empty then leaf_bodies N = [] \<and> centerOfMass N = v_zero
       else centerOfMass N = v_sdiv (leaf_moment N) (leaf_mass N)))"

text \<open>The tree with every \<open>nodeID\<close> reset, to compare trees up to their numbering.\<close>

fun erase_ids :: "BVHNode6D \<Rightarrow> BVHNode6D" where
  "erase_ids (BVHNode6D ty i ax m c e k cs) = BVHNode6D ty 0 ax m c e k (map erase_ids cs)"

text \<open>Three face bodies on the x axis, and the hierarchy that is built from them.\<close>

definition body_a :: MassNormalPoint where
  "body_a = \<lparr>mass = 1, normal = Vector3 0 0 1, point = Vector3 0 0 0, elementID = 0\<rparr>"

definition body_b :: MassNormalPoint where
  "body_b = \<lparr>mass = 2, normal = Vector3 0 0 1, point = Vector3 1 0 0, elementID = 1\<rparr>"

definition body_c :: MassNormalPoint where
  "body_c = \<lparr>mass = 3, normal = Vector3 0 0 1, point = Vector3 3 0 0, elementID = 2\<rparr>"

definition built_abc :: BVHNode6D where
  "built_abc =
     BVHNode6D Interior 0 0 6 (Vector3 (11 / 6) 0 0) (- 1) 9
      [BVHNode6D Interior 0 1 3 (Vector3 (2 / 3) 0 0) (- 1) 7
        [BVHNode6D Interior 0 2 3 (Vector3 (2 / 3) 0 0) (- 1) 5
          [BVHNode6D Interior 0 0 3 (Vector3 (2 / 3) 0 0) (- 1) 3
            [BVHNode6D Leaf 0 1 1 (Vector3 0 0 0) 0 1 [],
             BVHNode6D Leaf 0 1 2 (Vector3 1 0 0) 1 1 []],
           BVHNode6D Empty 0 0 0 (Vector3 0 0 0) (- 1) 1 []],
         BVHNode6D Empty 0 2 0 (Vector3 0 0 0) (- 1) 1 []],
       BVHNode6D Leaf 0 1 3 (Vector3 3 0 0) 2 1 []]"

definition tree_abc :: BVHNode6D where
  "tree_abc =
     BVHNode6D Interior 0 0 6 (Vector3 (11 / 6) 0 0) (- 1) 9
      [BVHNode6D Interior 1 1 3 (Vector3 (2 / 3) 0 0) (- 1) 7
        [BVHNode6D Interior 2 2 3 (Vector3 (2 / 3) 0 0) (- 1) 5
          [BVHNode6D Interior 3 0 3 (Vector3 (2 / 3) 0 0) (- 1) 3
            [BVHNode6D Leaf 4 1 1 (Vector3 0 0 0) 0 1 [],
             BVHNode6D Leaf 5 1 2 (Vector3 1 0 0) 1 1 []],
           BVHNode6D Empty 6 0 0 (Vector3 0 0 0) (- 1) 1 []],
         BVHNode6D Empty 7 2 0 (Vector3 0 0 0) (- 1) 1 []],
       BVHNode6D Leaf 8 1 3 (Vector3 3 0 0) 2 1 []]"

section \<open>surface_flow.cpp: the line search\<close>

text \<open>
  A matrix with three columns (\<open>origPositions\<close>, a gradient) is the list of its rows.
  The state of a \<open>SurfaceFlow\<close> is the vertex positions of the geometry, by vertex index,
  and the saved positions.  The energy is an object of the caller's; its \<open>Value()\<close> is
  taken as a function of the current vertex positions, its \<open>Differential\<close> as a function
  from the positions to the gradient matrix.
\<close>

type_synonym MatrixX3 = "Vector3 list"

record SurfaceFlow =
  inputVertexPositions :: "Vector3 list"
  origPositions :: MatrixX3

definition nVertices :: "SurfaceFlow \<Rightarrow> nat" where
  "nVertices st = length (inputVertexPositions st)"

definition GetRow :: "MatrixX3 \<Rightarrow> nat \<Rightarrow> error + Vector3" where
  "GetRow A i = (if i < length A then Inr (A ! i) else Inl OutOfBounds)"

text \<open>\<open>gradient.norm()\<close>: the Frobenius norm.\<close>

definition matrix_norm :: "MatrixX3 \<Rightarrow> real" where
  "matrix_norm A = sqrt (sum_list (map (\<lambda>r. vx r * vx r + vy r * vy r + vz r * vz r) A))"

definition SaveCurrentPositions :: "SurfaceFlow \<Rightarrow> SurfaceFlow" where
  "SaveCurrentPositions st =
     st\<lparr>origPositions :=
          fold (\<lambda>ind_v M. M[ind_v := inputVertexPositions st ! ind_v])
            [0..<nVertices st] (replicate (nVertices st) v_zero)\<rparr>"

text \<open>
  The loop over the vertices of \<open>RestorePositions\<close> and \<open>SetGradientStep\<close>: vertex
  \<open>ind_v\<close> gets the position \<open>new_pos ind_v\<close>, which reads rows of matrices.
\<close>

fun set_positions ::
  "(nat \<Rightarrow> error + Vector3) \<Rightarrow> nat list \<Rightarrow> SurfaceFlow \<Rightarrow> error + SurfaceFlow" where
  "set_positions new_pos [] st = Inr st"
| "set_positions new_pos (ind_v # rest) st =
     (case new_pos ind_v of
        Inl e \<Rightarrow> Inl e
      | Inr pos \<Rightarrow>
          set_positions new_pos rest
            (st\<lparr>inputVertexPositions := (inputVertexPositions st)[ind_v := pos]\<rparr>))"

definition RestorePositions :: "SurfaceFlow \<Rightarrow> error + SurfaceFlow" where
  "RestorePositions st =
     set_positions (\<lambda>ind_v. GetRow (origPositions st) ind_v) [0..<nVertices st] st"

definition SetGradientStep :: "SurfaceFlow \<Rightarrow> MatrixX3 \<Rightarrow> real \<Rightarrow> error + SurfaceFlow" where
  "SetGradientStep st gradient delta =
     set_positions
       (\<lambda>ind_v. case GetRow (origPositions st) ind_v of
                  Inl e \<Rightarrow> Inl e
                | Inr pos_v \<Rightarrow>
                   (case GetRow gradient ind_v of
                      Inl e \<Rightarrow> Inl e
                    | Inr grad_v \<Rightarrow> Inr (v_sub pos_v (v_smult delta grad_v))))
       [0..<nVertices st] st"

definition LS_STEP_THRESHOLD :: real where
  "LS_STEP_THRESHOLD = 1 / 10 ^ 10"

text \<open>
  The \<open>while\<close> loop of \<open>LineSearchStep\<close>, with the state
  \<open>(delta, numBacktracks, positions)\<close>.  \<open>sigma\<close> is 0.01.
\<close>

function LineSearch_loop ::
  "(Vector3 list \<Rightarrow> real) \<Rightarrow> MatrixX3 \<Rightarrow> real \<Rightarrow> real \<Rightarrow> real \<Rightarrow>
   real \<Rightarrow> nat \<Rightarrow> SurfaceFlow \<Rightarrow> error + (real \<times> nat \<times> SurfaceFlow)" where
  "LineSearch_loop energy gradient initialEnergy gradNorm gradDot delta numBacktracks st =
     (if delta > LS_STEP_THRESHOLD
      then (case SetGradientStep st gradient delta of
              Inl e \<Rightarrow> Inl e
            | Inr st' \<Rightarrow>
               (let nextEnergy = energy (inputVertexPositions st');
                    decrease = initialEnergy - nextEnergy;
                    targetDecrease = (1 / 100) * delta * gradNorm * gradDot
                in if decrease < targetDecrease
                   then LineSearch_loop energy gradient initialEnergy gradNorm gradDot
                          (delta / 2) (numBacktracks + 1) st'
                   else Inr (delta, numBacktracks, st')))
      else Inr (delta, numBacktracks, st))"
  by pat_completeness auto
termination
proof (relation "measure (\<lambda>(energy, gradient, initialEnergy, gradNorm, gradDot, delta, numBacktracks, st).
                    nat \<lceil>delta * 10 ^ 10\<rceil>)")
  show "wf (measure (\<lambda>(energy, gradient, initialEnergy, gradNorm, gradDot, delta, numBacktracks, st).
                    nat \<lceil>delta * 10 ^ 10\<rceil>))"
    by simp
next
  fix energy :: "Vector3 list \<Rightarrow> real" and gradient :: MatrixX3
    and initialEnergy gradNorm gradDot delta :: real and numBacktracks :: nat
    and st x2 :: SurfaceFlow and x xa xb :: real
  assume "LS_STEP_THRESHOLD < delta"
  then have x1: "1 < delta * 10 ^ 10" by (simp add: LS_STEP_THRESHOLD_def field_simps)
  define y where "y = delta * 10 ^ 10"
  have "1 < \<lceil>y\<rceil>" using x1 unfolding y_def by (simp add: less_ceiling_iff)
  then have c2: "2 \<le> real_of_int \<lceil>y\<rceil>" by linarith
  have "y / 2 \<le> real_of_int \<lceil>y\<rceil> - 1"
  proof (cases "y \<le> 2")
    case True
    with c2 show ?thesis by linarith
  next
    case False
    have "y \<le> real_of_int \<lceil>y\<rceil>" by (rule le_of_int_ceiling)
    with False show ?thesis by linarith
  qed
  then have "y / 2 \<le> real_of_int (\<lceil>y\<rceil> - 1)" by simp
  then have "\<lceil>y / 2\<rceil> \<le> \<lceil>y\<rceil> - 1" by (rule ceiling_le)
  moreover have "0 < \<lceil>y\<rceil>" using \<open>1 < \<lceil>y\<rceil>\<close> by simp
  ultimately have "nat \<lceil>y / 2\<rceil> < nat \<lceil>y\<rceil>" by linarith
  then show "((energy, gradient, initialEnergy, gradNorm, gradDot, delta / 2, numBacktracks + 1, x2),
              (energy, gradient, initialEnergy, gradNorm, gradDot, delta, numBacktracks, st))
             \<in> measure (\<lambda>(energy, gradient, initialEnergy, gradNorm, gradDot, delta, numBacktracks, st).
                    nat \<lceil>delta * 10 ^ 10\<rceil>)"
    by (simp add: y_def)
qed

declare LineSearch_loop.simps [simp del]

definition LineSearchStep ::
  "(Vector3 list \<Rightarrow> real) \<Rightarrow> SurfaceFlow \<Rightarrow> MatrixX3 \<Rightarrow> real \<Rightarrow> real \<Rightarrow>
   error + (real \<times> SurfaceFlow)" where
  "LineSearchStep energy st gradient initGuess gradDot =
     (let delta = initGuess;
          st1 = SaveCurrentPositions st;
          initialEnergy = energy (inputVertexPositions st1);
          gradNorm = matrix_norm gradient
      in if gradNorm < 1 / 10 ^ 10
         then Inr (0, st1)
         else (case LineSearch_loop energy gradient initialEnergy gradNorm gradDot delta 0 st1 of
                 Inl e \<Rightarrow> Inl e
               | Inr (delta', numBacktracks, st2) \<Rightarrow>
                  (if delta' \<le> LS_STEP_THRESHOLD
                   then (case RestorePositions st2 of
                           Inl e \<Rightarrow> Inl e
                         | Inr st3 \<Rightarrow> Inr (0, st3))
                   else Inr (delta', st2))))"

definition StepLineSearch ::
  "(Vector3 list \<Rightarrow> real) \<Rightarrow> (Vector3 list \<Rightarrow> MatrixX3) \<Rightarrow> SurfaceFlow \<Rightarrow>
   error + (real \<times> SurfaceFlow)" where
  "StepLineSearch energy differential st =
     (let gradient = differential (inputVertexPositions st);
          initGuess = 1 / matrix_norm gradient
      in LineSearchStep energy st gradient initGuess 1)"

text \<open>
  Concrete line searches on one vertex: the energy \<open>x\<^sup>2\<close> with its gradient at \<open>x = 1\<close>,
  where a step is accepted after two halvings, and the energy \<open>x\<close> searched in the
  ascent direction, where every step is refused.
\<close>

definition energy_sq :: "Vector3 list \<Rightarrow> real" where
  "energy_sq P = vx (P ! 0) * vx (P ! 0)"

definition differential_sq :: "Vector3 list \<Rightarrow> MatrixX3" where
  "differential_sq P = [Vector3 (2 * vx (P ! 0)) 0 0]"

definition energy_lin :: "Vector3 list \<Rightarrow> real" where
  "energy_lin P = vx (P ! 0)"

definition flow_at :: "real \<Rightarrow> SurfaceFlow" where
  "flow_at x = \<lparr>inputVertexPositions = [Vector3 x 0 0], origPositions = []\<rparr>"

text \<open>
  What holds when the loop leaves through \<open>break\<close> with step \<open>d\<close>: the positions \<open>P\<close> are
  the saved ones \<open>orig\<close> moved by \<open>-d\<close> times the gradient rows, and the decrease of the
  energy is not below the target.
\<close>

definition accepted_step ::
  "(Vector3 list \<Rightarrow> real) \<Rightarrow> MatrixX3 \<Rightarrow> real \<Rightarrow> real \<Rightarrow> real \<Rightarrow> MatrixX3 \<Rightarrow> nat \<Rightarrow>
   real \<Rightarrow> Vector3 list \<Rightarrow> bool" where
  "accepted_step energy gradient E0 gn gd orig n d P =
     (P = map (\<lambda>i. v_sub (orig ! i) (v_smult d (gradient ! i))) [0..<n] \<and>
      \<not> E0 - energy P < (1 / 100) * d * gn * gd)"

section \<open>block_cluster_tree.cpp: the block cluster tree\<close>

text \<open>
  The block cluster tree is built over a hierarchy that is given to its constructor.
  \<open>Cluster\<close> holds the fields of a \<open>BVHNode6D\<close> that block_cluster_tree.cpp reads.
  Two of them, \<open>nElements\<close> and \<open>clusterIndices\<close> (the number and the indices of the faces
  below the node), are declared in bvh_6d.h, which is not among the sources, as are
  \<open>boxContainsPoint\<close>, \<open>nodeRatio\<close>, \<open>BVH_N_CHILDREN\<close>, the data tree of the percolated
  product and \<open>Hs::MetricDistanceTermFrac\<close>.  Two nodes are the same node
  (\<open>cluster1 == cluster2\<close> on pointers) when they have the same \<open>nodeID\<close>.
\<close>

datatype Cluster = Cluster
  (cl_nodeID: nat)
  (cl_nodeType: BVHNodeType)
  (nElements: nat)
  (clusterIndices: "nat list")
  (cl_totalMass: real)
  (cl_centerOfMass: Vector3)
  (minCoords: Vector3)
  (maxCoords: Vector3)
  (cl_elementID: nat)
  (cl_numNodesInBranch: nat)
  (cl_children: "Cluster list")

record ClusterPair =
  cluster1 :: Cluster
  cluster2 :: Cluster

record BlockClusterTree =
  tree_root :: Cluster
  separationCoeff :: real
  exp_s :: real
  admissiblePairs :: "ClusterPair list"
  inadmissiblePairs :: "ClusterPair list"
  unresolvedPairs :: "ClusterPair list"
  admissibleByCluster :: "ClusterPair list list"
  Af_1 :: "real list"

text \<open>Modelled from the spec: \<open>BVH_N_CHILDREN\<close>, "node has two children".\<close>

definition BVH_N_CHILDREN :: nat where
  "BVH_N_CHILDREN = 2"

text \<open>
  Modelled from the spec: \<open>nodeRatio\<close>, \<open>diag(box).norm() / d\<close>, as the same method of
  \<open>BVHNode3D\<close> in bvh_3d.h computes it.
\<close>

definition nodeRatio :: "Cluster \<Rightarrow> real \<Rightarrow> real" where
  "nodeRatio c d = v_norm (v_sub (maxCoords c) (minCoords c)) / d"

definition isPairSmallEnough :: "ClusterPair \<Rightarrow> bool" where
  "isPairSmallEnough pair =
     (let s1 = int (nElements (cluster1 pair)); s2 = int (nElements (cluster2 pair))
      in s1 \<le> 1 \<or> s2 \<le> 1 \<or> s1 + s2 \<le> 8)"

text \<open>
  \<open>isPairAdmissible\<close>; \<open>boxContainsPoint\<close> is a parameter.  When the two centres
  coincide the source divides by zero: both ratios are then infinite or NaN and the
  comparison with \<open>theta\<close> is false, which the model writes out.
\<close>

definition isPairAdmissible ::
  "(Cluster \<Rightarrow> Vector3 \<Rightarrow> bool) \<Rightarrow> ClusterPair \<Rightarrow> real \<Rightarrow> bool" where
  "isPairAdmissible boxContainsPoint pair theta =
     (if cl_nodeID (cluster1 pair) = cl_nodeID (cluster2 pair) then False
      else if boxContainsPoint (cluster1 pair) (cl_centerOfMass (cluster2 pair)) \<or>
              boxContainsPoint (cluster2 pair) (cl_centerOfMass (cluster1 pair))
      then False
      else
       (let distance = v_norm (v_sub (cl_centerOfMass (cluster1 pair))
                                     (cl_centerOfMass (cluster2 pair)));
            ratio1 = nodeRatio (cluster1 pair) distance;
            ratio2 = nodeRatio (cluster2 pair) distance
        in if distance = 0 then False else max ratio1 ratio2 < theta))"

definition child_at :: "Cluster \<Rightarrow> nat \<Rightarrow> error + Cluster" where
  "child_at c i = (if i < length (cl_children c) then Inr (cl_children c ! i) else Inl OutOfBounds)"

text \<open>The two nested loops that subdivide a pair, appending to \<open>nextPairs\<close>.\<close>

fun subdivide_inner ::
  "ClusterPair \<Rightarrow> nat \<Rightarrow> nat list \<Rightarrow> ClusterPair list \<Rightarrow> error + ClusterPair list" where
  "subdivide_inner pair i [] nextPairs = Inr nextPairs"
| "subdivide_inner pair i (j # js) nextPairs =
     (case child_at (cluster1 pair) i of
        Inl e \<Rightarrow> Inl e
      | Inr ci \<Rightarrow>
         (case child_at (cluster2 pair) j of
            Inl e \<Rightarrow> Inl e
          | Inr cj \<Rightarrow>
             subdivide_inner pair i js (nextPairs @ [\<lparr>cluster1 = ci, cluster2 = cj\<rparr>])))"

fun subdivide_outer ::
  "ClusterPair \<Rightarrow> nat list \<Rightarrow> ClusterPair list \<Rightarrow> error + ClusterPair list" where
  "subdivide_outer pair [] nextPairs = Inr nextPairs"
| "subdivide_outer pair (i # is) nextPairs =
     (case subdivide_inner pair i [0..<BVH_N_CHILDREN] nextPairs of
        Inl e \<Rightarrow> Inl e
      | Inr nextPairs' \<Rightarrow> subdivide_outer pair is nextPairs')"

text \<open>
  The loop of \<open>splitInadmissibleNodes\<close> over the unresolved pairs, with the state
  \<open>(inadmissiblePairs, admissiblePairs, nextPairs)\<close>.
\<close>

fun split_loop ::
  "(Cluster \<Rightarrow> Vector3 \<Rightarrow> bool) \<Rightarrow> real \<Rightarrow> ClusterPair list \<Rightarrow>
   ClusterPair list \<times> ClusterPair list \<times> ClusterPair list \<Rightarrow>
   error + (ClusterPair list \<times> ClusterPair list \<times> ClusterPair list)" where
  "split_loop boxContainsPoint theta [] acc = Inr acc"
| "split_loop boxContainsPoint theta (pair # rest) (inadm, adm, nextPairs) =
     (if nElements (cluster1 pair) = 0 \<or> nElements (cluster2 pair) = 0
      then split_loop boxContainsPoint theta rest (inadm, adm, nextPairs)
      else if nElements (cluster1 pair) = 1 \<and> nElements (cluster2 pair) = 1
      then split_loop boxContainsPoint theta rest (inadm @ [pair], adm, nextPairs)
      else if isPairAdmissible boxContainsPoint pair theta
      then split_loop boxContainsPoint theta rest (inadm, adm @ [pair], nextPairs)
      else if isPairSmallEnough pair
      then split_loop boxContainsPoint theta rest (inadm @ [pair], adm, nextPairs)
      else
       (case subdivide_outer pair [0..<BVH_N_CHILDREN] nextPairs of
          Inl e \<Rightarrow> Inl e
        | Inr nextPairs' \<Rightarrow> split_loop boxContainsPoint theta rest (inadm, adm, nextPairs')))"

definition splitInadmissibleNodes ::
  "(Cluster \<Rightarrow> Vector3 \<Rightarrow> bool) \<Rightarrow> BlockClusterTree \<Rightarrow> error + BlockClusterTree" where
  "splitInadmissibleNodes boxContainsPoint t =
     (case split_loop boxContainsPoint (separationCoeff t) (unresolvedPairs t)
             (inadmissiblePairs t, admissiblePairs t, []) of
        Inl e \<Rightarrow> Inl e
      | Inr (inadm, adm, nextPairs) \<Rightarrow>
          Inr (t\<lparr>inadmissiblePairs := inadm, admissiblePairs := adm,
                 unresolvedPairs := nextPairs\<rparr>))"

text \<open>The size of the larger tree of the deepest unresolved pair: it bounds the rounds left.\<close>

definition pair_size :: "ClusterPair \<Rightarrow> nat" where
  "pair_size p = size (cluster1 p) + size (cluster2 p)"

definition rounds_bound :: "BlockClusterTree \<Rightarrow> nat" where
  "rounds_bound t = Max (insert 0 (pair_size ` set (unresolvedPairs t)))"

text \<open>The \<open>while\<close> loop of the constructor: rounds of \<open>splitInadmissibleNodes\<close> until no
  unresolved pair is left.\<close>

function BCT_resolve ::
  "(Cluster \<Rightarrow> Vector3 \<Rightarrow> bool) \<Rightarrow> BlockClusterTree \<Rightarrow> error + BlockClusterTree" where
  "BCT_resolve boxContainsPoint t =
     (if unresolvedPairs t = [] then Inr t
      else (case splitInadmissibleNodes boxContainsPoint t of
              Inl e \<Rightarrow> Inl e
            | Inr t' \<Rightarrow> BCT_resolve boxContainsPoint t'))"
  by pat_completeness auto
termination
proof (relation "measure (\<lambda>(boxContainsPoint, t). rounds_bound t)")
  show "wf (measure (\<lambda>(boxContainsPoint, t). rounds_bound t))" by simp
next
  fix boxContainsPoint :: "Cluster \<Rightarrow> Vector3 \<Rightarrow> bool" and t t' :: BlockClusterTree
  assume ne: "unresolvedPairs t \<noteq> []"
    and sp: "splitInadmissibleNodes boxContainsPoint t = Inr t'"
  have child_size: "size ci < size c" if "child_at c i = Inr ci" for c ci i
  proof -
    from that have "ci \<in> set (cl_children c)"
      by (auto simp: child_at_def split: if_splits)
    then have "size ci \<le> size_list size (cl_children c)"
      by (simp add: size_list_estimation')
    then show ?thesis by (cases c) simp
  qed
  have inner: "\<forall>q \<in> set nx'. q \<in> set nx \<or> pair_size q < pair_size pair"
    if "subdivide_inner pair i js nx = Inr nx'" for pair i js nx nx'
    using that
  proof (induction js arbitrary: nx)
    case Nil
    then show ?case by simp
  next
    case (Cons j js)
    from Cons.prems obtain ci where ci: "child_at (cluster1 pair) i = Inr ci"
      by (cases "child_at (cluster1 pair) i") auto
    from Cons.prems ci obtain cj where cj: "child_at (cluster2 pair) j = Inr cj"
      by (cases "child_at (cluster2 pair) j") auto
    from Cons.prems ci cj
    have "subdivide_inner pair i js (nx @ [\<lparr>cluster1 = ci, cluster2 = cj\<rparr>]) = Inr nx'" by simp
    from Cons.IH[OF this]
    have "\<forall>q \<in> set nx'. q \<in> set (nx @ [\<lparr>cluster1 = ci, cluster2 = cj\<rparr>]) \<or>
            pair_size q < pair_size pair" .
    moreover have "pair_size \<lparr>cluster1 = ci, cluster2 = cj\<rparr> < pair_size pair"
      using child_size[OF ci] child_size[OF cj] by (simp add: pair_size_def)
    ultimately show ?case by auto
  qed
  have outer: "\<forall>q \<in> set nx'. q \<in> set nx \<or> pair_size q < pair_size pair"
    if "subdivide_outer pair is nx = Inr nx'" for pair "is" nx nx'
    using that
  proof (induction "is" arbitrary: nx)
    case Nil
    then show ?case by simp
  next
    case (Cons i "is")
    from Cons.prems obtain n1 where
      n1: "subdivide_inner pair i [0..<BVH_N_CHILDREN] nx = Inr n1"
      by (cases "subdivide_inner pair i [0..<BVH_N_CHILDREN] nx") auto
    with Cons.prems have "subdivide_outer pair is n1 = Inr nx'" by simp
    from Cons.IH[OF this] inner[OF n1] show ?case by blast
  qed
  have loop: "\<forall>q \<in> set n'. q \<in> set n \<or> (\<exists>p \<in> set ps. pair_size q < pair_size p)"
    if "split_loop boxContainsPoint theta ps (i, a, n) = Inr (i', a', n')"
    for theta ps i a n i' a' n'
    using that
  proof (induction ps arbitrary: i a n)
    case Nil
    then show ?case by simp
  next
    case (Cons p ps)
    consider (keep) i1 a1 where "split_loop boxContainsPoint theta ps (i1, a1, n) = Inr (i', a', n')"
      | (expand) n1 where "subdivide_outer p [0..<BVH_N_CHILDREN] n = Inr n1"
          "split_loop boxContainsPoint theta ps (i, a, n1) = Inr (i', a', n')"
      using Cons.prems
      by (cases "subdivide_outer p [0..<BVH_N_CHILDREN] n") (auto split: if_splits)
    then show ?case
    proof cases
      case keep
      from Cons.IH[OF keep] show ?thesis by auto
    next
      case expand
      from Cons.IH[OF expand(2)] outer[OF expand(1)] show ?thesis by auto
    qed
  qed
  from sp obtain i' a' n' where
    l: "split_loop boxContainsPoint (separationCoeff t) (unresolvedPairs t)
          (inadmissiblePairs t, admissiblePairs t, []) = Inr (i', a', n')"
    and u: "unresolvedPairs t' = n'"
    by (auto simp: splitInadmissibleNodes_def split: sum.splits)
  have less: "\<forall>q \<in> set n'. \<exists>p \<in> set (unresolvedPairs t). pair_size q < pair_size p"
    using loop[OF l] by simp
  let ?A = "insert 0 (pair_size ` set (unresolvedPairs t))"
  have fin: "finite ?A" by simp
  obtain p0 where p0: "p0 \<in> set (unresolvedPairs t)" using ne by (cases "unresolvedPairs t") auto
  have "0 < size (cluster1 p0)" by (cases "cluster1 p0") simp
  then have pos: "0 < pair_size p0" by (simp add: pair_size_def)
  have ge: "pair_size p \<le> Max ?A" if "p \<in> set (unresolvedPairs t)" for p
    using that by (intro Max_ge[OF fin]) simp
  have "\<forall>x \<in> insert 0 (pair_size ` set n'). x < Max ?A"
  proof
    fix x assume "x \<in> insert 0 (pair_size ` set n')"
    then consider "x = 0" | q where "q \<in> set n'" "x = pair_size q" by auto
    then show "x < Max ?A"
    proof cases
      case 1
      with pos ge[OF p0] show ?thesis by linarith
    next
      case 2
      with less obtain p where "p \<in> set (unresolvedPairs t)" "pair_size q < pair_size p" by blast
      with ge[of p] 2 show ?thesis by linarith
    qed
  qed
  then have "Max (insert 0 (pair_size ` set n')) < Max ?A"
    by (subst Max_less_iff) simp_all
  then show "((boxContainsPoint, t'), (boxContainsPoint, t))
               \<in> measure (\<lambda>(boxContainsPoint, t). rounds_bound t)"
    by (simp add: rounds_bound_def u)
qed

declare BCT_resolve.simps [simp del]

text \<open>An entry of an \<open>Eigen::VectorXd\<close>; an index outside the vector is an error.\<close>

definition vec_at :: "real list \<Rightarrow> nat \<Rightarrow> error + real" where
  "vec_at v i = (if i < length v then Inr (v ! i) else Inl OutOfBounds)"

text \<open>
  The face indices that a loop \<open>for (i = 0; i < cluster->nElements; i++)\<close> reads from
  \<open>clusterIndices\<close>; it is an error when the vector is shorter than \<open>nElements\<close>.
\<close>

definition cluster_faces :: "Cluster \<Rightarrow> error + nat list" where
  "cluster_faces c =
     (if nElements c \<le> length (clusterIndices c)
      then Inr (take (nElements c) (clusterIndices c))
      else Inl OutOfBounds)"

text \<open>
  \<open>AfFullProduct\<close>.  The face areas and barycenters of the geometry are functions of the
  face index, \<open>kern\<close> is \<open>Hs::MetricDistanceTermFrac\<close>.  The inner loop carries
  \<open>(a_times_one_i, a_times_v_i)\<close>.
\<close>

fun AfFull_inner ::
  "(nat \<Rightarrow> real) \<Rightarrow> (nat \<Rightarrow> Vector3) \<Rightarrow> (real \<Rightarrow> Vector3 \<Rightarrow> Vector3 \<Rightarrow> real) \<Rightarrow> real \<Rightarrow>
   real list \<Rightarrow> nat \<Rightarrow> nat list \<Rightarrow> real \<times> real \<Rightarrow> error + (real \<times> real)" where
  "AfFull_inner faceAreas faceBarycenters kern s v_mid f1_ind [] acc = Inr acc"
| "AfFull_inner faceAreas faceBarycenters kern s v_mid f1_ind (f2_ind # rest)
     (a_times_one_i, a_times_v_i) =
     (let isSame = (f1_ind = f2_ind);
          mid1 = faceBarycenters f1_ind;
          mid2 = faceBarycenters f2_ind;
          l2 = faceAreas f2_ind;
          af_ij = (if isSame then 0 else l2 * kern s mid1 mid2)
      in case vec_at v_mid f2_ind of
           Inl e \<Rightarrow> Inl e
         | Inr v2 \<Rightarrow>
            AfFull_inner faceAreas faceBarycenters kern s v_mid f1_ind rest
              (a_times_one_i + af_ij, a_times_v_i + af_ij * v2))"

fun AfFull_outer ::
  "(nat \<Rightarrow> real) \<Rightarrow> (nat \<Rightarrow> Vector3) \<Rightarrow> (real \<Rightarrow> Vector3 \<Rightarrow> Vector3 \<Rightarrow> real) \<Rightarrow> real \<Rightarrow>
   real list \<Rightarrow> nat list \<Rightarrow> nat list \<Rightarrow> real list \<Rightarrow> error + real list" where
  "AfFull_outer faceAreas faceBarycenters kern s v_mid [] faces2 result = Inr result"
| "AfFull_outer faceAreas faceBarycenters kern s v_mid (f1_ind # rest) faces2 result =
     (case AfFull_inner faceAreas faceBarycenters kern s v_mid f1_ind faces2 (0, 0) of
        Inl e \<Rightarrow> Inl e
      | Inr (a_times_one_i, a_times_v_i) \<Rightarrow>
         (let l1 = faceAreas f1_ind
          in case vec_at v_mid f1_ind of
               Inl e \<Rightarrow> Inl e
             | Inr v1 \<Rightarrow>
                (let toAdd = 2 * (a_times_one_i * l1 * v1 - a_times_v_i * l1)
                 in case vec_at result f1_ind of
                      Inl e \<Rightarrow> Inl e
                    | Inr r1 \<Rightarrow>
                       AfFull_outer faceAreas faceBarycenters kern s v_mid rest faces2
                         (result[f1_ind := r1 + toAdd]))))"

definition AfFullProduct ::
  "(nat \<Rightarrow> real) \<Rightarrow> (nat \<Rightarrow> Vector3) \<Rightarrow> (real \<Rightarrow> Vector3 \<Rightarrow> Vector3 \<Rightarrow> real) \<Rightarrow> real \<Rightarrow>
   ClusterPair \<Rightarrow> real list \<Rightarrow> real list \<Rightarrow> error + real list" where
  "AfFullProduct faceAreas faceBarycenters kern s pair v_mid result =
     (case cluster_faces (cluster1 pair) of
        Inl e \<Rightarrow> Inl e
      | Inr faces1 \<Rightarrow>
         (case cluster_faces (cluster2 pair) of
            Inl e \<Rightarrow> Inl e
          | Inr faces2 \<Rightarrow>
             AfFull_outer faceAreas faceBarycenters kern s v_mid faces1 faces2 result))"

text \<open>
  The operator A of the specification, entry \<open>i\<close>, restricted to the faces \<open>js\<close>:
  \<open>2 * area i * (sum over j in js with j \<noteq> i of area j * k (x i) (x j) * (v i - v j))\<close>.
\<close>

definition A_entry ::
  "(nat \<Rightarrow> real) \<Rightarrow> (nat \<Rightarrow> Vector3) \<Rightarrow> (real \<Rightarrow> Vector3 \<Rightarrow> Vector3 \<Rightarrow> real) \<Rightarrow> real \<Rightarrow>
   real list \<Rightarrow> nat list \<Rightarrow> nat \<Rightarrow> real" where
  "A_entry faceAreas faceBarycenters kern s v js i =
     2 * faceAreas i *
       sum_list (map (\<lambda>j. faceAreas j * kern s (faceBarycenters i) (faceBarycenters j) *
                           (v ! i - v ! j))
                  (filter (\<lambda>j. j \<noteq> i) js))"

text \<open>
  \<open>OrganizePairsByFirst\<close>: one bucket per node of the tree, each admissible pair appended
  to the bucket of its first cluster's \<open>nodeID\<close>.
\<close>

fun bucket_pairs :: "ClusterPair list \<Rightarrow> ClusterPair list list \<Rightarrow> error + ClusterPair list list" where
  "bucket_pairs [] buckets = Inr buckets"
| "bucket_pairs (pair # rest) buckets =
     (let i = cl_nodeID (cluster1 pair)
      in if i < length buckets
         then bucket_pairs rest (buckets[i := buckets ! i @ [pair]])
         else Inl OutOfBounds)"

definition OrganizePairsByFirst :: "BlockClusterTree \<Rightarrow> error + BlockClusterTree" where
  "OrganizePairsByFirst t =
     (case bucket_pairs (admissiblePairs t)
             (replicate (cl_numNodesInBranch (tree_root t)) []) of
        Inl e \<Rightarrow> Inl e
      | Inr buckets \<Rightarrow> Inr (t\<lparr>admissibleByCluster := buckets\<rparr>))"

text \<open>
  The data tree of the percolated product.  Modelled from the spec: \<open>CreateDataTree\<close>
  and \<open>PercolationData\<close> (not among the sources) give every node of the hierarchy one
  record \<open>(wtDot, B)\<close>, zero at the start, that \<open>byIndex\<close> finds by the node's \<open>nodeID\<close>;
  the children of a data tree node are those of its hierarchy node.  The store maps a
  \<open>nodeID\<close> to the record.
\<close>

record PercolationData =
  wtDot :: real
  B :: real

type_synonym DataStore = "nat \<Rightarrow> PercolationData"

definition CreateDataTree :: DataStore where
  "CreateDataTree = (\<lambda>i. \<lparr>wtDot = 0, B = 0\<rparr>)"

fun percolateWtDot :: "Cluster \<Rightarrow> real list \<Rightarrow> DataStore \<Rightarrow> error + DataStore"
  and percolateWtDot_children ::
    "Cluster list \<Rightarrow> real list \<Rightarrow> real \<Rightarrow> DataStore \<Rightarrow> error + (real \<times> DataStore)" where
  "percolateWtDot (Cluster i ty n idx m c lo hi e k cs) v st =
     (if ty = Leaf
      then (case vec_at v e of
              Inl err \<Rightarrow> Inl err
            | Inr ve \<Rightarrow> Inr (st(i := (st i)\<lparr>wtDot := m * ve\<rparr>)))
      else (case percolateWtDot_children cs v 0 st of
              Inl err \<Rightarrow> Inl err
            | Inr (rootSum, st') \<Rightarrow> Inr (st'(i := (st' i)\<lparr>wtDot := rootSum\<rparr>))))"
| "percolateWtDot_children [] v rootSum st = Inr (rootSum, st)"
| "percolateWtDot_children (child # rest) v rootSum st =
     (case percolateWtDot child v st of
        Inl err \<Rightarrow> Inl err
      | Inr st' \<Rightarrow>
          percolateWtDot_children rest v (rootSum + wtDot (st' (cl_nodeID child))) st')"

fun percolateJ ::
    "Cluster \<Rightarrow> real \<Rightarrow> DataStore \<Rightarrow> real list \<Rightarrow> error + (DataStore \<times> real list)"
  and percolateJ_children ::
    "nat \<Rightarrow> Cluster list \<Rightarrow> DataStore \<Rightarrow> real list \<Rightarrow> error + (DataStore \<times> real list)" where
  "percolateJ (Cluster i ty n idx m c lo hi e k cs) parentB st b =
     (let st1 = st(i := (st i)\<lparr>B := B (st i) + parentB\<rparr>)
      in if ty = Leaf
         then (if e < length b
               then percolateJ_children i cs st1 (b[e := m * B (st1 i)])
               else Inl OutOfBounds)
         else percolateJ_children i cs st1 b)"
| "percolateJ_children i [] st b = Inr (st, b)"
| "percolateJ_children i (child # rest) st b =
     (case percolateJ child (B (st i)) st b of
        Inl err \<Rightarrow> Inl err
      | Inr (st', b') \<Rightarrow> percolateJ_children i rest st' b')"

text \<open>The loop over the buckets: every admissible pair adds to the \<open>B\<close> of its first
  cluster.  (The source runs the buckets in parallel; the model runs them in order.)\<close>

definition add_pair_B ::
  "(real \<Rightarrow> Vector3 \<Rightarrow> Vector3 \<Rightarrow> real) \<Rightarrow> real \<Rightarrow> ClusterPair \<Rightarrow> DataStore \<Rightarrow> DataStore" where
  "add_pair_B kern s pair st =
     (let a_IJ = kern s (cl_centerOfMass (cluster1 pair)) (cl_centerOfMass (cluster2 pair));
          i = cl_nodeID (cluster1 pair);
          j = cl_nodeID (cluster2 pair)
      in st(i := (st i)\<lparr>B := B (st i) + a_IJ * wtDot (st j)\<rparr>))"

definition MultiplyAfPercolated ::
  "(real \<Rightarrow> Vector3 \<Rightarrow> Vector3 \<Rightarrow> real) \<Rightarrow> BlockClusterTree \<Rightarrow> real list \<Rightarrow> real list \<Rightarrow>
   error + real list" where
  "MultiplyAfPercolated kern t v b =
     (case percolateWtDot (tree_root t) v CreateDataTree of
        Inl e \<Rightarrow> Inl e
      | Inr st1 \<Rightarrow>
         (let st2 = fold (add_pair_B kern (exp_s t)) (concat (admissibleByCluster t)) st1
          in case percolateJ (tree_root t) 0 st2 b of
               Inl e \<Rightarrow> Inl e
             | Inr (st3, b') \<Rightarrow> Inr b'))"

text \<open>\<open>PremultiplyAf1\<close>: the vector of ones is both the input and the output of the
  product; the product has read its input before it writes its output.\<close>

definition PremultiplyAf1 ::
  "(real \<Rightarrow> Vector3 \<Rightarrow> Vector3 \<Rightarrow> real) \<Rightarrow> BlockClusterTree \<Rightarrow> error + BlockClusterTree" where
  "PremultiplyAf1 kern t =
     (let ones = replicate (nElements (tree_root t)) 1
      in case MultiplyAfPercolated kern t ones ones of
           Inl e \<Rightarrow> Inl e
         | Inr b \<Rightarrow> Inr (t\<lparr>Af_1 := b\<rparr>))"

text \<open>The constructor, for the hierarchy \<open>bvh_root\<close>, \<open>sepCoeff\<close> and \<open>s\<close>.\<close>

definition BlockClusterTree_ctor ::
  "(Cluster \<Rightarrow> Vector3 \<Rightarrow> bool) \<Rightarrow> (real \<Rightarrow> Vector3 \<Rightarrow> Vector3 \<Rightarrow> real) \<Rightarrow>
   Cluster \<Rightarrow> real \<Rightarrow> real \<Rightarrow> error + BlockClusterTree" where
  "BlockClusterTree_ctor boxContainsPoint kern bvh_root sepCoeff s =
     (let t0 = \<lparr>tree_root = bvh_root, separationCoeff = sepCoeff, exp_s = s,
                admissiblePairs = [], inadmissiblePairs = [],
                unresolvedPairs = [\<lparr>cluster1 = bvh_root, cluster2 = bvh_root\<rparr>],
                admissibleByCluster = [], Af_1 = []\<rparr>
      in case BCT_resolve boxContainsPoint t0 of
           Inl e \<Rightarrow> Inl e
         | Inr t1 \<Rightarrow>
            (case OrganizePairsByFirst t1 of
               Inl e \<Rightarrow> Inl e
             | Inr t2 \<Rightarrow> PremultiplyAf1 kern t2))"

text \<open>
  Modelled from the spec: \<open>Hs::MetricDistanceTermFrac\<close>, "\<open>k_s(x,y) = 1/|x-y|^(2+2s)\<close> is
  the metric distance term", and \<open>boxContainsPoint\<close>, the point is inside the bounding
  box.  They instantiate the parameters \<open>kern\<close> and \<open>boxContainsPoint\<close> on concrete inputs.
\<close>

definition MetricDistanceTermFrac :: "real \<Rightarrow> Vector3 \<Rightarrow> Vector3 \<Rightarrow> real" where
  "MetricDistanceTermFrac s x y = 1 / (v_norm (v_sub x y) powr (2 + 2 * s))"

definition boxContainsPoint :: "Cluster \<Rightarrow> Vector3 \<Rightarrow> bool" where
  "boxContainsPoint c p =
     (vx (minCoords c) \<le> vx p \<and> vx p \<le> vx (maxCoords c) \<and>
      vy (minCoords c) \<le> vy p \<and> vy p \<le> vy (maxCoords c) \<and>
      vz (minCoords c) \<le> vz p \<and> vz p \<le> vz (maxCoords c))"

text \<open>
  The rules of the build loop in the words of the specification: the pairwise
  admissibility test, the class of a pair, and the 2 x 2 child pairs of a pair.
\<close>

datatype PairClass = Dropped | MadeInadmissible | MadeAdmissible | Expanded

definition pairwise_admissible ::
  "(Cluster \<Rightarrow> Vector3 \<Rightarrow> bool) \<Rightarrow> real \<Rightarrow> Cluster \<Rightarrow> Cluster \<Rightarrow> bool" where
  "pairwise_admissible contains theta I J =
     (cl_nodeID I \<noteq> cl_nodeID J \<and>
      \<not> contains I (cl_centerOfMass J) \<and> \<not> contains J (cl_centerOfMass I) \<and>
      v_norm (v_sub (cl_centerOfMass I) (cl_centerOfMass J)) \<noteq> 0 \<and>
      max (v_norm (v_sub (maxCoords I) (minCoords I)) /
             v_norm (v_sub (cl_centerOfMass I) (cl_centerOfMass J)))
          (v_norm (v_sub (maxCoords J) (minCoords J)) /
             v_norm (v_sub (cl_centerOfMass I) (cl_centerOfMass J))) < theta)"

definition classify_pair ::
  "(Cluster \<Rightarrow> Vector3 \<Rightarrow> bool) \<Rightarrow> real \<Rightarrow> ClusterPair \<Rightarrow> PairClass" where
  "classify_pair contains theta p =
     (if nElements (cluster1 p) = 0 \<or> nElements (cluster2 p) = 0 then Dropped
      else if nElements (cluster1 p) = 1 \<and> nElements (cluster2 p) = 1 then MadeInadmissible
      else if pairwise_admissible contains theta (cluster1 p) (cluster2 p) then MadeAdmissible
      else if nElements (cluster1 p) \<le> 1 \<or> nElements (cluster2 p) \<le> 1 \<or>
              nElements (cluster1 p) + nElements (cluster2 p) \<le> 8 then MadeInadmissible
      else Expanded)"

definition child_pairs :: "ClusterPair \<Rightarrow> ClusterPair list" where
  "child_pairs p =
     concat (map (\<lambda>ci. map (\<lambda>cj. \<lparr>cluster1 = ci, cluster2 = cj\<rparr>) (take 2 (cl_children (cluster2 p))))
                 (take 2 (cl_children (cluster1 p))))"

text \<open>
  A hierarchy over five faces of area 1 whose barycenters lie on the x axis at 0, 1, 2, 3
  and 1000: the root splits into the cluster of the first four faces and the leaf of the
  fifth, and the block cluster tree that is built over it with \<open>theta = 1/4\<close> and
  \<open>s = 1\<close>.
\<close>

definition leaf_cluster :: "nat \<Rightarrow> nat \<Rightarrow> real \<Rightarrow> Cluster" where
  "leaf_cluster i f x =
     Cluster i Leaf 1 [f] 1 (Vector3 x 0 0) (Vector3 x 0 0) (Vector3 x 0 0) f 1 []"

definition ex_LL :: Cluster where
  "ex_LL = Cluster 2 Interior 2 [0, 1] 2 (Vector3 (1 / 2) 0 0) (Vector3 0 0 0) (Vector3 1 0 0)
             SIZE_MAX 3 [leaf_cluster 3 0 0, leaf_cluster 4 1 1]"

definition ex_LR :: Cluster where
  "ex_LR = Cluster 5 Interior 2 [2, 3] 2 (Vector3 (5 / 2) 0 0) (Vector3 2 0 0) (Vector3 3 0 0)
             SIZE_MAX 3 [leaf_cluster 6 2 2, leaf_cluster 7 3 3]"

definition ex_L :: Cluster where
  "ex_L = Cluster 1 Interior 4 [0, 1, 2, 3] 4 (Vector3 (3 / 2) 0 0) (Vector3 0 0 0) (Vector3 3 0 0)
            SIZE_MAX 7 [ex_LL, ex_LR]"

definition ex_R :: Cluster where
  "ex_R = leaf_cluster 8 4 1000"

definition ex_root :: Cluster where
  "ex_root = Cluster 0 Interior 5 [0, 1, 2, 3, 4] 5 (Vector3 (1006 / 5) 0 0) (Vector3 0 0 0)
               (Vector3 1000 0 0) SIZE_MAX 9 [ex_L, ex_R]"

definition ex_kappa :: real where
  "ex_kappa = MetricDistanceTermFrac 1 (Vector3 (3 / 2) 0 0) (Vector3 1000 0 0)"

definition ex_resolved :: BlockClusterTree where
  "ex_resolved =
     \<lparr>tree_root = ex_root, separationCoeff = 1 / 4, exp_s = 1,
      admissiblePairs = [\<lparr>cluster1 = ex_L, cluster2 = ex_R\<rparr>, \<lparr>cluster1 = ex_R, cluster2 = ex_L\<rparr>],
      inadmissiblePairs = [\<lparr>cluster1 = ex_L, cluster2 = ex_L\<rparr>, \<lparr>cluster1 = ex_R, cluster2 = ex_R\<rparr>],
      unresolvedPairs = [],
      admissibleByCluster = [], Af_1 = []\<rparr>"

definition ex_bct :: BlockClusterTree where
  "ex_bct =
     ex_resolved
       \<lparr>admissibleByCluster :=
          [[], [\<lparr>cluster1 = ex_L, cluster2 = ex_R\<rparr>], [], [], [], [], [], [],
           [\<lparr>cluster1 = ex_R, cluster2 = ex_L\<rparr>]],
        Af_1 := [ex_kappa, ex_kappa, ex_kappa, ex_kappa, 4 * ex_kappa]\<rparr>"

definition ex_areas :: "nat \<Rightarrow> real" where
  "ex_areas f = 1"

definition ex_barycenters :: "nat \<Rightarrow> Vector3" where
  "ex_barycenters f = Vector3 (if f = 4 then 1000 else real f) 0 0"

text \<open>
  The hierarchy as the data model of the specification describes it: a node holds
  \<open>nElements\<close> distinct face indices, and a node with two or more faces has two children
  whose face indices together are its own.
\<close>

fun cluster_wf :: "Cluster \<Rightarrow> bool" where
  "cluster_wf (Cluster i ty n idx m c lo hi e k cs) =
     (n = length idx \<and> distinct idx \<and>
      (if 2 \<le> n
       then length cs = 2 \<and> mset (concat (map clusterIndices cs)) = mset idx \<and>
            list_all cluster_wf cs
       else True))"

text \<open>The pair of faces \<open>(f1, f2)\<close> is covered by a cluster pair; the number of pairs of a
  list that cover it.\<close>

definition covers :: "nat \<Rightarrow> nat \<Rightarrow> ClusterPair \<Rightarrow> bool" where
  "covers f1 f2 p =
     (f1 \<in> set (clusterIndices (cluster1 p)) \<and> f2 \<in> set (clusterIndices (cluster2 p)))"

definition cover_count :: "nat \<Rightarrow> nat \<Rightarrow> ClusterPair list \<Rightarrow> nat" where
  "cover_count f1 f2 ps = length (filter (covers f1 f2) ps)"

definition pair_wf :: "ClusterPair \<Rightarrow> bool" where
  "pair_wf p = (cluster_wf (cluster1 p) \<and> cluster_wf (cluster2 p))"

text \<open>
  Notions for the percolated product: the nodes of a hierarchy and their IDs, the
  \<open>(elementID, totalMass)\<close> of the leaves below a node, the sum that the upward pass
  stores at a node, and the sum of the leaf masses below a node.
\<close>

fun cl_nodes :: "Cluster \<Rightarrow> Cluster list" where
  "cl_nodes (Cluster i ty n idx m c lo hi e k cs) =
     Cluster i ty n idx m c lo hi e k cs # concat (map cl_nodes cs)"

fun node_ids :: "Cluster \<Rightarrow> nat list" where
  "node_ids (Cluster i ty n idx m c lo hi e k cs) = i # concat (map node_ids cs)"

fun leaf_list :: "Cluster \<Rightarrow> (nat \<times> real) list" where
  "leaf_list (Cluster i ty n idx m c lo hi e k cs) =
     (if ty = Leaf then [(e, m)] else concat (map leaf_list cs))"

definition leaf_ids :: "Cluster \<Rightarrow> nat list" where
  "leaf_ids N = map fst (leaf_list N)"

definition leaf_dot :: "real list \<Rightarrow> Cluster \<Rightarrow> real" where
  "leaf_dot v N = sum_list (map (\<lambda>(e, m). m * v ! e) (leaf_list N))"

definition leaf_mass_sum :: "Cluster \<Rightarrow> real" where
  "leaf_mass_sum N = sum_list (map snd (leaf_list N))"

text \<open>
  The hierarchy as the percolated product needs it: the node IDs are distinct (as
  \<open>assignIDsRecursively\<close> numbers them), a leaf has no children, and the leaves hold
  distinct face indices below \<open>F\<close>.
\<close>

definition leaves_childless :: "Cluster \<Rightarrow> bool" where
  "leaves_childless N =
     list_all (\<lambda>M. if cl_nodeType M = Leaf then cl_children M = [] else True) (cl_nodes N)"

definition perc_wf :: "Cluster \<Rightarrow> nat \<Rightarrow> bool" where
  "perc_wf N F =
     (distinct (node_ids N) \<and> leaves_childless N \<and> distinct (leaf_ids N) \<and>
      list_all (\<lambda>e. e < F) (leaf_ids N))"

text \<open>What the upward pass establishes in the store, and what the downward pass
  establishes in the store and the output vector.\<close>

definition wtDot_post :: "real list \<Rightarrow> Cluster list \<Rightarrow> DataStore \<Rightarrow> DataStore \<Rightarrow> bool" where
  "wtDot_post v Ns st st' =
     ((\<forall>j. j \<notin> set (concat (map node_ids Ns)) \<longrightarrow> st' j = st j) \<and>
      (\<forall>j. B (st' j) = B (st j)) \<and>
      (\<forall>M \<in> set (concat (map cl_nodes Ns)). wtDot (st' (cl_nodeID M)) = leaf_dot v M))"

text \<open>The sum of the accumulators \<open>Bm\<close> of the nodes of \<open>N\<close> that lie above the leaf of
  face \<open>e\<close>: what the downward pass has added up when it reaches that leaf.\<close>

definition path_B :: "(nat \<Rightarrow> real) \<Rightarrow> Cluster \<Rightarrow> nat \<Rightarrow> real" where
  "path_B Bm N e =
     sum_list (map (\<lambda>A. if e \<in> set (leaf_ids A) then Bm (cl_nodeID A) else 0) (cl_nodes N))"

definition J_post ::
  "(nat \<Rightarrow> real) \<Rightarrow> Cluster list \<Rightarrow> real \<Rightarrow> DataStore \<Rightarrow> real list \<Rightarrow> DataStore \<Rightarrow> real list \<Rightarrow>
   bool" where
  "J_post Bm Ns parentB st b st' b' =
     (length b' = length b \<and>
      (\<forall>j. j \<notin> set (concat (map node_ids Ns)) \<longrightarrow> st' j = st j) \<and>
      (\<forall>e. e \<notin> set (concat (map leaf_ids Ns)) \<longrightarrow> b' ! e = b ! e) \<and>
      (\<forall>N \<in> set Ns. \<forall>(e, m) \<in> set (leaf_list N). b' ! e = m * (parentB + path_B Bm N e)))"

text \<open>Both clusters of a pair are nodes of the hierarchy \<open>N\<close>.\<close>

definition pair_in :: "Cluster \<Rightarrow> ClusterPair \<Rightarrow> bool" where
  "pair_in N p = (cluster1 p \<in> set (cl_nodes N) \<and> cluster2 p \<in> set (cl_nodes N))"

text \<open>
  The entry that the percolated product gives the leaf of face \<open>e\<close>, before the factor of
  the leaf's own mass: over the admissible pairs \<open>(I, J)\<close> with the leaf of \<open>e\<close> below \<open>I\<close>,
  the kernel at the two centres of mass times the weight \<open>w J\<close> of the second cluster.
\<close>

definition percolated_row ::
  "(real \<Rightarrow> Vector3 \<Rightarrow> Vector3 \<Rightarrow> real) \<Rightarrow> real \<Rightarrow> (Cluster \<Rightarrow> real) \<Rightarrow> ClusterPair list \<Rightarrow> nat \<Rightarrow>
   real" where
  "percolated_row kern s w pairs e =
     sum_list (map (\<lambda>p. if e \<in> set (leaf_ids (cluster1 p))
                         then kern s (cl_centerOfMass (cluster1 p)) (cl_centerOfMass (cluster2 p)) *
                              w (cluster2 p)
                         else 0) pairs)"

text \<open>
  The row sum of the operator in the words of the specification, the diagonal of its form
  \<open>2 (diag v - A' v)\<close>: \<open>area i * (sum over j in js with j \<noteq> i of area j * k (x i) (x j))\<close>.
\<close>

definition A_row_sum ::
  "(nat \<Rightarrow> real) \<Rightarrow> (nat \<Rightarrow> Vector3) \<Rightarrow> (real \<Rightarrow> Vector3 \<Rightarrow> Vector3 \<Rightarrow> real) \<Rightarrow> real \<Rightarrow>
   nat list \<Rightarrow> nat \<Rightarrow> real" where
  "A_row_sum faceAreas faceBarycenters kern s js i =
     faceAreas i *
       sum_list (map (\<lambda>j. faceAreas j * kern s (faceBarycenters i) (faceBarycenters j))
                  (filter (\<lambda>j. j \<noteq> i) js))"

section \<open>Double-precision arithmetic\<close>

text \<open>
  A C++ \<open>double\<close> with the arithmetic of IEEE 754 binary64 in its default rounding
  (to nearest, ties to even): a finite value, an infinity or NaN.  A finite value is kept
  as the real number it stands for; the results of the operations are of the form
  \<open>m * 2^e\<close> with \<open>\<bar>m\<bar> \<le> 2^53\<close> and \<open>-1074 \<le> e\<close>.  The sign of zero is not kept: \<open>-0\<close> and
  \<open>+0\<close> are one value, and a division of a non-zero number by zero takes the zero as
  \<open>+0\<close>.

  \<open>binade x\<close> is the exponent \<open>e\<close> with \<open>2^e \<le> \<bar>x\<bar> < 2^(e+1)\<close>, the least exponent -1022
  for the subnormal numbers, and \<open>None\<close> above the largest binade.  The doubles of binade
  \<open>e\<close> are the multiples of \<open>2^(e - 52)\<close>; \<open>to_double\<close> rounds a real number to the nearest
  of them, and to an infinity where the rounded value reaches \<open>2^1024\<close>.
\<close>

datatype double = Fin real | PInf | NInf | NaN

definition emin :: int where
  "emin = - 1022"

definition emax :: int where
  "emax = 1023"

definition binade :: "real \<Rightarrow> int option" where
  "binade x = List.find (\<lambda>e. \<bar>x\<bar> < 2 powi (e + 1)) [emin..emax]"

definition round_even :: "real \<Rightarrow> int" where
  "round_even q =
     (let f = \<lfloor>q\<rfloor>; r = q - of_int f
      in if r < 1 / 2 then f
         else if 1 / 2 < r then f + 1
         else if even f then f else f + 1)"

definition to_double :: "real \<Rightarrow> double" where
  "to_double x =
     (case binade x of
        None \<Rightarrow> if 0 < x then PInf else NInf
      | Some e \<Rightarrow>
         (let q = 2 powi (e - 52);
              y = of_int (round_even (x / q)) * q
          in if 2 ^ 1024 \<le> \<bar>y\<bar> then (if 0 < x then PInf else NInf) else Fin y))"

fun d_add :: "double \<Rightarrow> double \<Rightarrow> double" where
  "d_add NaN b = NaN"
| "d_add a NaN = NaN"
| "d_add (Fin x) (Fin y) = to_double (x + y)"
| "d_add PInf NInf = NaN"
| "d_add NInf PInf = NaN"
| "d_add PInf b = PInf"
| "d_add a PInf = PInf"
| "d_add NInf b = NInf"
| "d_add a NInf = NInf"

fun d_neg :: "double \<Rightarrow> double" where
  "d_neg (Fin x) = Fin (- x)"
| "d_neg PInf = NInf"
| "d_neg NInf = PInf"
| "d_neg NaN = NaN"

definition d_sub :: "double \<Rightarrow> double \<Rightarrow> double" where
  "d_sub a b = d_add a (d_neg b)"

fun d_mul :: "double \<Rightarrow> double \<Rightarrow> double" where
  "d_mul NaN b = NaN"
| "d_mul a NaN = NaN"
| "d_mul (Fin x) (Fin y) = to_double (x * y)"
| "d_mul (Fin x) PInf = (if x = 0 then NaN else if 0 < x then PInf else NInf)"
| "d_mul (Fin x) NInf = (if x = 0 then NaN else if 0 < x then NInf else PInf)"
| "d_mul PInf (Fin y) = (if y = 0 then NaN else if 0 < y then PInf else NInf)"
| "d_mul NInf (Fin y) = (if y = 0 then NaN else if 0 < y then NInf else PInf)"
| "d_mul PInf PInf = PInf"
| "d_mul PInf NInf = NInf"
| "d_mul NInf PInf = NInf"
| "d_mul NInf NInf = PInf"

fun d_div :: "double \<Rightarrow> double \<Rightarrow> double" where
  "d_div NaN b = NaN"
| "d_div a NaN = NaN"
| "d_div (Fin x) (Fin y) =
     (if y = 0 then (if x = 0 then NaN else if 0 < x then PInf else NInf)
      else to_double (x / y))"
| "d_div (Fin x) PInf = Fin 0"
| "d_div (Fin x) NInf = Fin 0"
| "d_div PInf (Fin y) = (if 0 \<le> y then PInf else NInf)"
| "d_div NInf (Fin y) = (if 0 \<le> y then NInf else PInf)"
| "d_div PInf b = NaN"
| "d_div NInf b = NaN"

text \<open>The comparisons \<open><\<close> and \<open><=\<close>: false as soon as one side is NaN.\<close>

fun d_lt :: "double \<Rightarrow> double \<Rightarrow> bool" where
  "d_lt NaN b = False"
| "d_lt a NaN = False"
| "d_lt (Fin x) (Fin y) = (x < y)"
| "d_lt PInf b = False"
| "d_lt a NInf = False"
| "d_lt a PInf = True"
| "d_lt NInf b = True"

fun d_le :: "double \<Rightarrow> double \<Rightarrow> bool" where
  "d_le NaN b = False"
| "d_le a NaN = False"
| "d_le (Fin x) (Fin y) = (x \<le> y)"
| "d_le NInf b = True"
| "d_le a PInf = True"
| "d_le PInf b = False"
| "d_le a NInf = False"

fun d_sqrt :: "double \<Rightarrow> double" where
  "d_sqrt (Fin x) = (if x < 0 then NaN else to_double (sqrt x))"
| "d_sqrt PInf = PInf"
| "d_sqrt NInf = NaN"
| "d_sqrt NaN = NaN"

text \<open>\<open>Vector3\<close> over doubles, with the component-wise operators of the geometry
  library.\<close>

datatype Vec3d = Vec3d (dx: double) (dy: double) (dz: double)

definition vd_zero :: Vec3d where
  "vd_zero = Vec3d (Fin 0) (Fin 0) (Fin 0)"

definition vd_add :: "Vec3d \<Rightarrow> Vec3d \<Rightarrow> Vec3d" where
  "vd_add a b = Vec3d (d_add (dx a) (dx b)) (d_add (dy a) (dy b)) (d_add (dz a) (dz b))"

definition vd_sub :: "Vec3d \<Rightarrow> Vec3d \<Rightarrow> Vec3d" where
  "vd_sub a b = Vec3d (d_sub (dx a) (dx b)) (d_sub (dy a) (dy b)) (d_sub (dz a) (dz b))"

definition vd_smult :: "double \<Rightarrow> Vec3d \<Rightarrow> Vec3d" where
  "vd_smult s a = Vec3d (d_mul s (dx a)) (d_mul s (dy a)) (d_mul s (dz a))"

definition vd_sdiv :: "Vec3d \<Rightarrow> double \<Rightarrow> Vec3d" where
  "vd_sdiv a s = Vec3d (d_div (dx a) s) (d_div (dy a) s) (d_div (dz a) s)"

section \<open>bvh_6d.cpp in double arithmetic\<close>

text \<open>
  The same functions of \<open>bvh_6d.cpp\<close> once more, now computing as the program does, with
  doubles: the names carry the suffix \<open>_d\<close>.  The exact model above says what the code
  computes when no operation rounds, overflows or meets NaN; this one says what it
  computes on the machine.
\<close>

record MassNormalPoint_d =
  mass_d :: double
  normal_d :: Vec3d
  point_d :: Vec3d
  elementID_d :: nat

datatype BVHNode6D_d = BVHNode6D_d
  (nodeType_d: BVHNodeType)
  (nodeID_d: nat)
  (splitAxis_d: int)
  (totalMass_d: double)
  (centerOfMass_d: Vec3d)
  (node_elementID_d: int)
  (numNodesInBranch_d: nat)
  (children_d: "BVHNode6D_d list")

definition GetCoordFromBody_d :: "MassNormalPoint_d \<Rightarrow> int \<Rightarrow> error + double" where
  "GetCoordFromBody_d mp axis =
    (if axis = 0 then Inr (dx (point_d mp))
     else if axis = 1 then Inr (dy (point_d mp))
     else if axis = 2 then Inr (dz (point_d mp))
     else if axis = 3 then Inr (dx (normal_d mp))
     else if axis = 4 then Inr (dy (normal_d mp))
     else if axis = 5 then Inr (dz (normal_d mp))
     else Inl InvalidAxis)"

fun body_coords_d :: "MassNormalPoint_d list \<Rightarrow> int \<Rightarrow> error + double list" where
  "body_coords_d [] axis = Inr []"
| "body_coords_d (p # ps) axis =
    (case GetCoordFromBody_d p axis of
       Inl e \<Rightarrow> Inl e
     | Inr c \<Rightarrow> (case body_coords_d ps axis of Inl e \<Rightarrow> Inl e | Inr cs \<Rightarrow> Inr (c # cs)))"

text \<open>
  \<open>std::sort\<close> with \<open><\<close> on doubles.  On coordinates without NaN its result is the
  ascending list, which insertion computes; with a NaN among them the C++ standard leaves
  the result open.
\<close>

fun insert_d :: "double \<Rightarrow> double list \<Rightarrow> double list" where
  "insert_d x [] = [x]"
| "insert_d x (y # ys) = (if d_le x y then x # y # ys else y # insert_d x ys)"

definition sort_d :: "double list \<Rightarrow> double list" where
  "sort_d xs = foldr insert_d xs []"

definition sumSquares_d :: "double list \<Rightarrow> nat \<Rightarrow> double" where
  "sumSquares_d coords i =
    (let nPoints = length coords;
         width1 = d_sub (coords ! i) (coords ! 0);
         width2 = (if i = nPoints - 1 then Fin 0
                   else d_sub (coords ! (nPoints - 1)) (coords ! (i + 1)))
     in d_add (d_mul width1 width1) (d_mul width2 width2))"

text \<open>The scan for the least \<open>sumSquares\<close>, with the state \<open>(splitIndex, minWidths)\<close> that
  starts at \<open>((size_t) -1, INFINITY)\<close>.\<close>

fun split_scan_d :: "double list \<Rightarrow> nat list \<Rightarrow> nat \<times> double \<Rightarrow> nat \<times> double" where
  "split_scan_d coords [] st = st"
| "split_scan_d coords (i # rest) (splitIndex, minWidths) =
    (if d_lt (sumSquares_d coords i) minWidths
     then split_scan_d coords rest (i, sumSquares_d coords i)
     else split_scan_d coords rest (splitIndex, minWidths))"

definition chosen_splitIndex_d :: "double list \<Rightarrow> nat" where
  "chosen_splitIndex_d coords = fst (split_scan_d coords [0..<length coords] (SIZE_MAX, PInf))"

definition coord_at_d :: "double list \<Rightarrow> nat \<Rightarrow> error + double" where
  "coord_at_d coords i = (if i < length coords then Inr (coords ! i) else Inl OutOfBounds)"

definition AxisSplittingPlane_d :: "MassNormalPoint_d list \<Rightarrow> int \<Rightarrow> error + double" where
  "AxisSplittingPlane_d points axis =
    (case body_coords_d points axis of
       Inl e \<Rightarrow> Inl e
     | Inr cs \<Rightarrow>
        (let coords = sort_d cs;
             splitIndex = chosen_splitIndex_d coords
         in case coord_at_d coords splitIndex of
              Inl e \<Rightarrow> Inl e
            | Inr a \<Rightarrow>
               (case coord_at_d coords (splitIndex + 1) of
                  Inl e \<Rightarrow> Inl e
                | Inr b \<Rightarrow> Inr (d_div (d_add a b) (Fin 2)))))"

fun split_points_d ::
  "MassNormalPoint_d list \<Rightarrow> int \<Rightarrow> double \<Rightarrow> MassNormalPoint_d list \<times> MassNormalPoint_d list \<Rightarrow>
   error + (MassNormalPoint_d list \<times> MassNormalPoint_d list)" where
  "split_points_d [] axis splitPoint acc = Inr acc"
| "split_points_d (p # ps) axis splitPoint (lesserPoints, greaterPoints) =
    (case GetCoordFromBody_d p axis of
       Inl e \<Rightarrow> Inl e
     | Inr coord \<Rightarrow>
        (if d_le coord splitPoint
         then split_points_d ps axis splitPoint (lesserPoints @ [p], greaterPoints)
         else split_points_d ps axis splitPoint (lesserPoints, greaterPoints @ [p])))"

text \<open>\<open>averageDataFromChildren\<close>: where the total mass is zero, the division gives NaN or
  an infinity.\<close>

definition averageDataFromChildren_d :: "BVHNode6D_d list \<Rightarrow> double \<times> Vec3d" where
  "averageDataFromChildren_d cs =
    (let (m, c) = foldl (\<lambda>(m, c) child.
                      (d_add m (totalMass_d child),
                       vd_add c (vd_smult (totalMass_d child) (centerOfMass_d child))))
                    (Fin 0, vd_zero) cs
     in (m, vd_sdiv c m))"

text \<open>The constructor: \<open>None\<close> is a recursion that never returns, \<open>Some (Inl e)\<close> an
  error.\<close>

partial_function (option) BVHNode6D_ctor_d ::
  "MassNormalPoint_d list \<Rightarrow> int \<Rightarrow> (error + BVHNode6D_d) option" where
  "BVHNode6D_ctor_d points axis =
    (if length points = 0
     then Some (Inr (BVHNode6D_d Empty 0 axis (Fin 0) vd_zero (- 1) 1 []))
     else if length points = 1
     then Some (Inr (BVHNode6D_d Leaf 0 axis (mass_d (points ! 0)) (point_d (points ! 0))
                       (int (elementID_d (points ! 0))) 1 []))
     else
      (case AxisSplittingPlane_d points axis of
         Inl e \<Rightarrow> Some (Inl e)
       | Inr splitPoint \<Rightarrow>
          (case split_points_d points axis splitPoint ([], []) of
             Inl e \<Rightarrow> Some (Inl e)
           | Inr (lesserPoints, greaterPoints) \<Rightarrow>
              Option.bind (BVHNode6D_ctor_d lesserPoints (NextAxis axis)) (\<lambda>r1.
                case r1 of
                  Inl e \<Rightarrow> Some (Inl e)
                | Inr lesserNode \<Rightarrow>
                   Option.bind (BVHNode6D_ctor_d greaterPoints (NextAxis axis)) (\<lambda>r2.
                     case r2 of
                       Inl e \<Rightarrow> Some (Inl e)
                     | Inr greaterNode \<Rightarrow>
                        Some (Inr (BVHNode6D_d Interior 0 axis
                          (fst (averageDataFromChildren_d [lesserNode, greaterNode]))
                          (snd (averageDataFromChildren_d [lesserNode, greaterNode]))
                          (- 1)
                          (numNodesInBranch_d lesserNode + numNodesInBranch_d greaterNode + 1)
                          [lesserNode, greaterNode])))))))"




text \<open>A face body of mass \<open>m\<close> and index \<open>i\<close> at the point \<open>(x, y, z)\<close>, with normal
  \<open>(0, 0, 1)\<close>.\<close>

definition body_at :: "nat \<Rightarrow> real \<Rightarrow> real \<Rightarrow> real \<Rightarrow> real \<Rightarrow> MassNormalPoint_d" where
  "body_at i m x y z =
     \<lparr>mass_d = Fin m, normal_d = Vec3d (Fin 0) (Fin 0) (Fin 1),
      point_d = Vec3d (Fin x) (Fin y) (Fin z), elementID_d = i\<rparr>"

text \<open>Three bodies on the x axis at 0, \<open>2^512\<close> and \<open>2^513\<close>: finite coordinates whose
  squared distances are above the largest double.\<close>

definition far :: real where
  "far = 2 ^ 512"

definition far_bodies :: "MassNormalPoint_d list" where
  "far_bodies = [body_at 0 1 0 0 0, body_at 1 1 far 0 0, body_at 2 1 (2 * far) 0 0]"

text \<open>Two bodies whose x coordinates are the two doubles that follow 1, \<open>1 + 2^-52\<close> and
  \<open>1 + 2^-51\<close>; \<open>tiny\<close> is their distance.\<close>

definition near_a :: real where
  "near_a = 1 + 1 / 2 ^ 52"

definition near_b :: real where
  "near_b = 1 + 1 / 2 ^ 51"

definition tiny :: real where
  "tiny = 1 / 2 ^ 52"

definition near_bodies :: "MassNormalPoint_d list" where
  "near_bodies = [body_at 0 1 near_a 0 0, body_at 1 1 near_b 0 0]"






section \<open>surface_flow.cpp in double arithmetic\<close>

text \<open>
  The line search once more, computing with doubles (suffix \<open>_d\<close>).  The energy's
  \<open>Value()\<close> is any function from the vertex positions to a double, NaN and the
  infinities included.  \<open>gradient.norm()\<close> is the matrix library's; the model adds the
  squares row by row and takes the root.  The loop halves a double, which need not end
  (an infinite \<open>delta\<close> stays infinite), so it is a partial function.
\<close>

type_synonym MatrixX3_d = "Vec3d list"

record SurfaceFlow_d =
  inputVertexPositions_d :: "Vec3d list"
  origPositions_d :: MatrixX3_d

definition nVertices_d :: "SurfaceFlow_d \<Rightarrow> nat" where
  "nVertices_d st = length (inputVertexPositions_d st)"

definition GetRow_d :: "MatrixX3_d \<Rightarrow> nat \<Rightarrow> error + Vec3d" where
  "GetRow_d A i = (if i < length A then Inr (A ! i) else Inl OutOfBounds)"

definition matrix_norm_d :: "MatrixX3_d \<Rightarrow> double" where
  "matrix_norm_d A =
     d_sqrt (foldl (\<lambda>acc r. d_add (d_add (d_add acc (d_mul (dx r) (dx r)))
                                        (d_mul (dy r) (dy r)))
                                 (d_mul (dz r) (dz r)))
               (Fin 0) A)"

definition SaveCurrentPositions_d :: "SurfaceFlow_d \<Rightarrow> SurfaceFlow_d" where
  "SaveCurrentPositions_d st =
     st\<lparr>origPositions_d :=
          fold (\<lambda>ind_v M. M[ind_v := inputVertexPositions_d st ! ind_v])
            [0..<nVertices_d st] (replicate (nVertices_d st) vd_zero)\<rparr>"

fun set_positions_d ::
  "(nat \<Rightarrow> error + Vec3d) \<Rightarrow> nat list \<Rightarrow> SurfaceFlow_d \<Rightarrow> error + SurfaceFlow_d" where
  "set_positions_d new_pos [] st = Inr st"
| "set_positions_d new_pos (ind_v # rest) st =
     (case new_pos ind_v of
        Inl e \<Rightarrow> Inl e
      | Inr pos \<Rightarrow>
          set_positions_d new_pos rest
            (st\<lparr>inputVertexPositions_d := (inputVertexPositions_d st)[ind_v := pos]\<rparr>))"

definition RestorePositions_d :: "SurfaceFlow_d \<Rightarrow> error + SurfaceFlow_d" where
  "RestorePositions_d st =
     set_positions_d (\<lambda>ind_v. GetRow_d (origPositions_d st) ind_v) [0..<nVertices_d st] st"

definition SetGradientStep_d :: "SurfaceFlow_d \<Rightarrow> MatrixX3_d \<Rightarrow> double \<Rightarrow> error + SurfaceFlow_d" where
  "SetGradientStep_d st gradient delta =
     set_positions_d
       (\<lambda>ind_v. case GetRow_d (origPositions_d st) ind_v of
                  Inl e \<Rightarrow> Inl e
                | Inr pos_v \<Rightarrow>
                   (case GetRow_d gradient ind_v of
                      Inl e \<Rightarrow> Inl e
                    | Inr grad_v \<Rightarrow> Inr (vd_sub pos_v (vd_smult delta grad_v))))
       [0..<nVertices_d st] st"

text \<open>The literals \<open>1e-10\<close> and \<open>0.01\<close> are the doubles nearest to them.\<close>

definition LS_STEP_THRESHOLD_d :: double where
  "LS_STEP_THRESHOLD_d = to_double (1 / 10 ^ 10)"

definition sigma_d :: double where
  "sigma_d = to_double (1 / 100)"

partial_function (option) LineSearch_loop_d ::
  "(Vec3d list \<Rightarrow> double) \<Rightarrow> MatrixX3_d \<Rightarrow> double \<Rightarrow> double \<Rightarrow> double \<Rightarrow>
   double \<Rightarrow> nat \<Rightarrow> SurfaceFlow_d \<Rightarrow> (error + (double \<times> nat \<times> SurfaceFlow_d)) option" where
  "LineSearch_loop_d energy gradient initialEnergy gradNorm gradDot delta numBacktracks st =
     (if d_lt LS_STEP_THRESHOLD_d delta
      then (case SetGradientStep_d st gradient delta of
              Inl e \<Rightarrow> Some (Inl e)
            | Inr st' \<Rightarrow>
               (if d_lt (d_sub initialEnergy (energy (inputVertexPositions_d st')))
                        (d_mul (d_mul (d_mul sigma_d delta) gradNorm) gradDot)
                then LineSearch_loop_d energy gradient initialEnergy gradNorm gradDot
                       (d_div delta (Fin 2)) (numBacktracks + 1) st'
                else Some (Inr (delta, numBacktracks, st'))))
      else Some (Inr (delta, numBacktracks, st)))"

definition LineSearchStep_d ::
  "(Vec3d list \<Rightarrow> double) \<Rightarrow> SurfaceFlow_d \<Rightarrow> MatrixX3_d \<Rightarrow> double \<Rightarrow> double \<Rightarrow>
   (error + (double \<times> SurfaceFlow_d)) option" where
  "LineSearchStep_d energy st gradient initGuess gradDot =
     (let delta = initGuess;
          st1 = SaveCurrentPositions_d st;
          initialEnergy = energy (inputVertexPositions_d st1);
          gradNorm = matrix_norm_d gradient
      in if d_lt gradNorm (to_double (1 / 10 ^ 10))
         then Some (Inr (Fin 0, st1))
         else Option.bind
                (LineSearch_loop_d energy gradient initialEnergy gradNorm gradDot delta 0 st1)
                (\<lambda>r. case r of
                   Inl e \<Rightarrow> Some (Inl e)
                 | Inr (delta', numBacktracks, st2) \<Rightarrow>
                    (if d_le delta' LS_STEP_THRESHOLD_d
                     then (case RestorePositions_d st2 of
                             Inl e \<Rightarrow> Some (Inl e)
                           | Inr st3 \<Rightarrow> Some (Inr (Fin 0, st3)))
                     else Some (Inr (delta', st2)))))"

definition StepLineSearch_d ::
  "(Vec3d list \<Rightarrow> double) \<Rightarrow> (Vec3d list \<Rightarrow> MatrixX3_d) \<Rightarrow> SurfaceFlow_d \<Rightarrow>
   (error + (double \<times> SurfaceFlow_d)) option" where
  "StepLineSearch_d energy differential st =
     (let gradient = differential (inputVertexPositions_d st);
          initGuess = d_div (Fin 1) (matrix_norm_d gradient)
      in LineSearchStep_d energy st gradient initGuess (Fin 1))"

text \<open>
  One vertex at the origin, an energy whose value is 0 there and NaN at every other
  position, and the gradient \<open>(1, 0, 0)\<close>.
\<close>

definition origin_flow :: SurfaceFlow_d where
  "origin_flow = \<lparr>inputVertexPositions_d = [Vec3d (Fin 0) (Fin 0) (Fin 0)], origPositions_d = []\<rparr>"

definition energy_hole :: "Vec3d list \<Rightarrow> double" where
  "energy_hole P = (if P = [Vec3d (Fin 0) (Fin 0) (Fin 0)] then Fin 0 else NaN)"

definition differential_unit :: "Vec3d list \<Rightarrow> MatrixX3_d" where
  "differential_unit P = [Vec3d (Fin 1) (Fin 0) (Fin 0)]"




section \<open>The split axis\<close>

lemma NextAxis_range: "NextAxis a \<in> {0, 1, 2}"
  by (simp add: NextAxis_def)

text \<open>
  C1 (as stated, refuted): the claim has the axis advance as \<open>(splitAxis + 1) mod 6\<close>.
  From axis 2 the code goes back to axis 0, where the claim has 3.
\<close>

theorem C1_counterexample: "NextAxis 2 = 0 \<and> (2 + 1) mod 6 = (3::int) \<and> NextAxis 2 \<noteq> (2 + 1) mod 6"
  by (simp add: NextAxis_def)

section \<open>The splitting plane\<close>

lemma split_scan_Some:
  "split_scan coords js (si, Some m) = (si', mw') \<Longrightarrow>
   \<exists>m'. mw' = Some m' \<and> m' \<le> m \<and> (\<forall>j \<in> set js. m' \<le> sumSquares coords j) \<and>
     ((si' = si \<and> m' = m) \<or> (si' \<in> set js \<and> m' = sumSquares coords si' \<and> m' < m))"
proof (induction js arbitrary: si m)
  case Nil
  then show ?case by simp
next
  case (Cons j js)
  show ?case
  proof (cases "sumSquares coords j < m")
    case True
    with Cons.prems have "split_scan coords js (j, Some (sumSquares coords j)) = (si', mw')"
      by simp
    from Cons.IH[OF this] True show ?thesis by force
  next
    case False
    with Cons.prems have "split_scan coords js (si, Some m) = (si', mw')"
      by simp
    from Cons.IH[OF this] False show ?thesis by force
  qed
qed

lemma upt_0_split: "0 < n \<Longrightarrow> [0..<n] = 0 # [1..<n]"
  by (simp add: upt_conv_Cons)

lemma chosen_splitIndex_props:
  assumes "0 < length coords"
  shows "chosen_splitIndex coords < length coords"
    and "\<forall>j < length coords. sumSquares coords (chosen_splitIndex coords) \<le> sumSquares coords j"
    and "chosen_splitIndex coords \<noteq> 0 \<Longrightarrow>
         sumSquares coords (chosen_splitIndex coords) < sumSquares coords 0"
proof -
  obtain si' mw' where r: "split_scan coords [1..<length coords] (0, Some (sumSquares coords 0)) = (si', mw')"
    by (cases "split_scan coords [1..<length coords] (0, Some (sumSquares coords 0))") auto
  have c: "chosen_splitIndex coords = si'"
    using assms r by (simp add: chosen_splitIndex_def upt_0_split)
  from split_scan_Some[OF r] obtain m' where
    m: "mw' = Some m'" "m' \<le> sumSquares coords 0" "\<forall>j \<in> set [1..<length coords]. m' \<le> sumSquares coords j"
       "(si' = 0 \<and> m' = sumSquares coords 0) \<or> (si' \<in> set [1..<length coords] \<and> m' = sumSquares coords si' \<and> m' < sumSquares coords 0)"
    by blast
  show "chosen_splitIndex coords < length coords"
    using m(4) assms c by auto
  have eq: "m' = sumSquares coords si'" using m(4) by auto
  show "\<forall>j < length coords. sumSquares coords (chosen_splitIndex coords) \<le> sumSquares coords j"
  proof (intro allI impI)
    fix j assume "j < length coords"
    show "sumSquares coords (chosen_splitIndex coords) \<le> sumSquares coords j"
    proof (cases "j = 0")
      case True then show ?thesis using m(2) eq c by simp
    next
      case False
      then have "j \<in> set [1..<length coords]" using \<open>j < length coords\<close> by simp
      then show ?thesis using m(3) eq c by blast
    qed
  qed
  show "chosen_splitIndex coords \<noteq> 0 \<Longrightarrow>
         sumSquares coords (chosen_splitIndex coords) < sumSquares coords 0"
    using m(4) c by auto
qed

lemma sq_mono_real: "0 \<le> a \<Longrightarrow> a \<le> b \<Longrightarrow> a * a \<le> b * (b::real)"
  by (simp add: mult_mono)

lemma sumSquares_0:
  "2 \<le> length coords \<Longrightarrow>
   sumSquares coords 0 = (coords ! (length coords - 1) - coords ! 1) * (coords ! (length coords - 1) - coords ! 1)"
  by (auto simp: sumSquares_def Let_def)

lemma sumSquares_last:
  "sumSquares coords (length coords - 1) =
   (coords ! (length coords - 1) - coords ! 0) * (coords ! (length coords - 1) - coords ! 0)"
  by (simp add: sumSquares_def Let_def)

lemma sumSquares_0_le_last:
  assumes "sorted coords" "2 \<le> length coords"
  shows "sumSquares coords 0 \<le> sumSquares coords (length coords - 1)"
proof -
  let ?n = "length coords"
  have a: "coords ! 0 \<le> coords ! 1" using assms by (simp add: sorted_nth_mono)
  have b: "coords ! 1 \<le> coords ! (?n - 1)" using assms by (intro sorted_nth_mono) auto
  show ?thesis
    unfolding sumSquares_0[OF assms(2)] sumSquares_last
    by (rule sq_mono_real) (use a b in auto)
qed

lemma chosen_splitIndex_bound:
  assumes "sorted coords" "2 \<le> length coords"
  shows "chosen_splitIndex coords \<le> length coords - 2"
proof -
  have pos: "0 < length coords" using assms(2) by linarith
  have lt: "chosen_splitIndex coords < length coords" by (rule chosen_splitIndex_props(1)[OF pos])
  have "chosen_splitIndex coords \<noteq> length coords - 1"
  proof
    assume e: "chosen_splitIndex coords = length coords - 1"
    then have "chosen_splitIndex coords \<noteq> 0" using assms by simp
    from chosen_splitIndex_props(3)[OF pos this] e
    have "sumSquares coords (length coords - 1) < sumSquares coords 0" by simp
    with sumSquares_0_le_last[OF assms] show False by simp
  qed
  with lt show ?thesis by simp
qed

lemma GetCoord_valid: "valid_axis a \<Longrightarrow> GetCoordFromBody p a = Inr (coordOf a p)"
  by (auto simp: valid_axis_def coordOf_def GetCoordFromBody_def)

lemma body_coords_valid: "valid_axis a \<Longrightarrow> body_coords ps a = Inr (map (coordOf a) ps)"
  by (induction ps) (simp_all add: GetCoord_valid)

lemma split_points_valid:
  "valid_axis a \<Longrightarrow>
   split_points ps a sp (l, g) =
     Inr (l @ filter (\<lambda>p. coordOf a p \<le> sp) ps, g @ filter (\<lambda>p. \<not> coordOf a p \<le> sp) ps)"
  by (induction ps arbitrary: l g) (simp_all add: GetCoord_valid)

lemma AxisSplittingPlane_valid:
  assumes "valid_axis a" "2 \<le> length ps"
  shows "AxisSplittingPlane ps a = Inr (split_value (sort (map (coordOf a) ps)))"
proof -
  let ?cs = "sort (map (coordOf a) ps)"
  have len: "2 \<le> length ?cs" using assms(2) by simp
  have b: "chosen_splitIndex ?cs \<le> length ?cs - 2"
    by (rule chosen_splitIndex_bound[OF _ len]) simp
  have i1: "chosen_splitIndex ?cs < length ?cs" using b len by linarith
  have i2: "chosen_splitIndex ?cs + 1 < length ?cs" using b len by linarith
  show ?thesis
    using i1 i2
    by (simp add: AxisSplittingPlane_def body_coords_valid[OF assms(1)] Let_def coord_at_def
        split_value_def del: length_sort length_map)
qed

lemma NextAxis_valid: "valid_axis (NextAxis a)"
  by (simp add: NextAxis_def valid_axis_def)

lemma ctor_Nil: "BVHNode6D_ctor [] a = Some (Inr (BVHNode6D Empty 0 a 0 v_zero (- 1) 1 []))"
  by (subst BVHNode6D_ctor.simps) simp

lemma ctor_single:
  "BVHNode6D_ctor [p] a =
     Some (Inr (BVHNode6D Leaf 0 a (mass p) (point p) (int (elementID p)) 1 []))"
  by (subst BVHNode6D_ctor.simps) simp

lemma ctor_step:
  assumes "valid_axis a" "2 \<le> length ps"
  shows "BVHNode6D_ctor ps a =
    Option.bind (BVHNode6D_ctor (filter (\<lambda>p. coordOf a p \<le> split_value (sort (map (coordOf a) ps))) ps) (NextAxis a)) (\<lambda>r1.
      case r1 of Inl e \<Rightarrow> Some (Inl e)
      | Inr lesserNode \<Rightarrow>
        Option.bind (BVHNode6D_ctor (filter (\<lambda>p. \<not> coordOf a p \<le> split_value (sort (map (coordOf a) ps))) ps) (NextAxis a)) (\<lambda>r2.
          case r2 of Inl e \<Rightarrow> Some (Inl e)
          | Inr greaterNode \<Rightarrow> Some (Inr (Interior_of a lesserNode greaterNode))))"
proof -
  have n: "length ps \<noteq> 0" "length ps \<noteq> 1" using assms(2) by auto
  show ?thesis
    apply (subst BVHNode6D_ctor.simps)
    apply (simp only: n if_False AxisSplittingPlane_valid[OF assms] split_points_valid[OF assms(1)]
        sum.case prod.case append_Nil Interior_of_def)
    done
qed

section \<open>Both halves of a split are smaller\<close>

lemma sorted_between:
  assumes "sorted (cs::real list)" "x \<in> set cs"
  shows "cs ! 0 \<le> x \<and> x \<le> cs ! (length cs - 1)"
proof -
  from assms(2) obtain k where k: "k < length cs" "cs ! k = x"
    by (auto simp: in_set_conv_nth)
  have "cs ! 0 \<le> cs ! k" using assms(1) k(1) by (intro sorted_nth_mono) auto
  moreover have "cs ! k \<le> cs ! (length cs - 1)"
    using assms(1) k(1) by (intro sorted_nth_mono) auto
  ultimately show ?thesis using k(2) by simp
qed

lemma mid_ge_both:
  fixes L x y :: real
  assumes "L \<le> (x + y) / 2" "x \<le> L" "y \<le> L"
  shows "x = L" and "y = L"
proof -
  have "L \<le> x" using assms by (simp add: field_simps)
  moreover have "L \<le> y" using assms by (simp add: field_simps)
  ultimately show "x = L" and "y = L" using assms(2,3) by simp_all
qed

lemma split_value_ge_first:
  assumes "sorted cs" "2 \<le> length cs"
  shows "cs ! 0 \<le> split_value cs"
proof -
  let ?i = "chosen_splitIndex cs"
  have b: "?i \<le> length cs - 2" by (rule chosen_splitIndex_bound[OF assms])
  have "cs ! ?i \<in> set cs" "cs ! (?i + 1) \<in> set cs" using b assms(2) by auto
  then have "cs ! 0 \<le> cs ! ?i" "cs ! 0 \<le> cs ! (?i + 1)"
    using sorted_between[OF assms(1)] by blast+
  then show ?thesis by (simp add: split_value_def)
qed

lemma split_value_lt_last:
  assumes "sorted cs" "2 \<le> length cs" "cs ! 0 \<noteq> cs ! (length cs - 1)"
  shows "split_value cs < cs ! (length cs - 1)"
proof (rule ccontr)
  let ?i = "chosen_splitIndex cs"
  let ?L = "cs ! (length cs - 1)"
  assume "\<not> split_value cs < ?L"
  then have ge: "?L \<le> (cs ! ?i + cs ! (?i + 1)) / 2" by (simp add: split_value_def)
  have pos: "0 < length cs" using assms(2) by linarith
  have b: "?i \<le> length cs - 2" by (rule chosen_splitIndex_bound[OF assms(1,2)])
  have "cs ! ?i \<in> set cs" "cs ! (?i + 1) \<in> set cs" using b assms(2) by auto
  then have le: "cs ! ?i \<le> ?L" "cs ! (?i + 1) \<le> ?L"
    using sorted_between[OF assms(1)] by blast+
  note eq = mid_ge_both[OF ge le]
  have ne: "?i \<noteq> length cs - 1" using b assms(2) by linarith
  have s_i: "sumSquares cs ?i = (?L - cs ! 0) * (?L - cs ! 0)"
    using ne eq by (simp add: sumSquares_def Let_def)
  have "?i = 0"
  proof (rule ccontr)
    assume "?i \<noteq> 0"
    from chosen_splitIndex_props(3)[OF pos this]
    have "sumSquares cs ?i < sumSquares cs 0" .
    also have "\<dots> \<le> sumSquares cs (length cs - 1)" by (rule sumSquares_0_le_last[OF assms(1,2)])
    finally show False unfolding s_i sumSquares_last by simp
  qed
  with eq(1) assms(3) show False by simp
qed

lemma const_on_iff:
  "const_on a ps \<longleftrightarrow> (\<forall>p \<in> set ps. \<forall>q \<in> set ps. coordOf a p = coordOf a q)"
  by (simp add: const_on_def list_all_iff)

lemma nonconst_ends:
  assumes "\<not> const_on a ps"
  shows "sort (map (coordOf a) ps) ! 0 \<noteq> sort (map (coordOf a) ps) ! (length ps - 1)"
proof
  let ?cs = "sort (map (coordOf a) ps)"
  assume e: "?cs ! 0 = ?cs ! (length ps - 1)"
  have "\<forall>p \<in> set ps. coordOf a p = ?cs ! 0"
  proof
    fix p assume "p \<in> set ps"
    then have "coordOf a p \<in> set ?cs" by simp
    from sorted_between[OF _ this] e show "coordOf a p = ?cs ! 0" by simp
  qed
  then have "const_on a ps" by (simp add: const_on_iff)
  with assms show False by simp
qed

lemma nonconst_split_proper:
  assumes "2 \<le> length ps" "\<not> const_on a ps"
  defines "sp \<equiv> split_value (sort (map (coordOf a) ps))"
  shows "length (filter (\<lambda>p. coordOf a p \<le> sp) ps) < length ps"
    and "length (filter (\<lambda>p. \<not> coordOf a p \<le> sp) ps) < length ps"
proof -
  let ?cs = "sort (map (coordOf a) ps)"
  have len: "2 \<le> length ?cs" using assms(1) by simp
  have srt: "sorted ?cs" by simp
  have "?cs ! 0 \<in> set ?cs" using len by (intro nth_mem) linarith
  then obtain p where p: "p \<in> set ps" "coordOf a p = ?cs ! 0" by auto
  have "?cs ! (length ?cs - 1) \<in> set ?cs" using len by (intro nth_mem) linarith
  then obtain q where q: "q \<in> set ps" "coordOf a q = ?cs ! (length ?cs - 1)" by auto
  have "coordOf a p \<le> sp" using split_value_ge_first[OF srt len] p(2) by (simp add: sp_def)
  then have l: "filter (\<lambda>p. coordOf a p \<le> sp) ps \<noteq> []" using p(1) by (auto simp: filter_empty_conv)
  have "?cs ! 0 \<noteq> ?cs ! (length ?cs - 1)" using nonconst_ends[OF assms(2)] by simp
  from split_value_lt_last[OF srt len this] have "\<not> coordOf a q \<le> sp"
    using q(2) by (simp add: sp_def)
  then have g: "filter (\<lambda>p. \<not> coordOf a p \<le> sp) ps \<noteq> []" using q(1) by (auto simp: filter_empty_conv)
  have total: "length (filter (\<lambda>p. coordOf a p \<le> sp) ps) + length (filter (\<lambda>p. \<not> coordOf a p \<le> sp) ps) = length ps"
    by (rule sum_length_filter_compl)
  from l g have "0 < length (filter (\<lambda>p. coordOf a p \<le> sp) ps)" "0 < length (filter (\<lambda>p. \<not> coordOf a p \<le> sp) ps)"
    by simp_all
  with total show "length (filter (\<lambda>p. coordOf a p \<le> sp) ps) < length ps"
    and "length (filter (\<lambda>p. \<not> coordOf a p \<le> sp) ps) < length ps" by linarith+
qed

lemma const_split_all:
  assumes "2 \<le> length ps" "const_on a ps"
  defines "sp \<equiv> split_value (sort (map (coordOf a) ps))"
  shows "filter (\<lambda>p. coordOf a p \<le> sp) ps = ps"
    and "filter (\<lambda>p. \<not> coordOf a p \<le> sp) ps = []"
proof -
  let ?cs = "sort (map (coordOf a) ps)"
  let ?i = "chosen_splitIndex ?cs"
  have len: "2 \<le> length ?cs" using assms(1) by simp
  have b: "?i \<le> length ?cs - 2" by (rule chosen_splitIndex_bound[OF _ len]) simp
  have i1: "?i < length ?cs" and i2: "?i + 1 < length ?cs" using b len by linarith+
  have "?cs ! ?i \<in> set ?cs" "?cs ! (?i + 1) \<in> set ?cs"
    by (rule nth_mem[OF i1], rule nth_mem[OF i2])
  then have "?cs ! ?i \<in> coordOf a ` set ps" "?cs ! (?i + 1) \<in> coordOf a ` set ps" by simp_all
  then obtain p q where pq: "p \<in> set ps" "coordOf a p = ?cs ! ?i" "q \<in> set ps" "coordOf a q = ?cs ! (?i + 1)"
    by (elim imageE) metis
  have all: "\<forall>r \<in> set ps. coordOf a r \<le> sp"
  proof
    fix r assume "r \<in> set ps"
    with assms(2) pq have "coordOf a r = coordOf a p" "coordOf a r = coordOf a q"
      unfolding const_on_iff by blast+
    with pq have "coordOf a r = ?cs ! ?i" "coordOf a r = ?cs ! (?i + 1)"
      by simp_all
    then show "coordOf a r \<le> sp" by (simp add: sp_def split_value_def)
  qed
  show "filter (\<lambda>p. coordOf a p \<le> sp) ps = ps" using all by (simp add: filter_id_conv)
  show "filter (\<lambda>p. \<not> coordOf a p \<le> sp) ps = []" using all by (simp add: filter_empty_conv)
qed

lemma coordOf_position:
  "coordOf 0 p = vx (point p)" "coordOf 1 p = vy (point p)" "coordOf 2 p = vz (point p)"
  by (simp_all add: coordOf_def GetCoordFromBody_def)

lemma const_position_short:
  assumes "const_on 0 ps" "const_on 1 ps" "const_on 2 ps" "distinct (map point ps)"
  shows "length ps \<le> 1"
proof (rule ccontr)
  assume "\<not> length ps \<le> 1"
  then have l: "0 < length ps" "1 < length ps" by auto
  have m: "ps ! 0 \<in> set ps" "ps ! 1 \<in> set ps"
    by (rule nth_mem[OF l(1)], rule nth_mem[OF l(2)])
  have "coordOf 0 (ps ! 0) = coordOf 0 (ps ! 1)" "coordOf 1 (ps ! 0) = coordOf 1 (ps ! 1)"
    "coordOf 2 (ps ! 0) = coordOf 2 (ps ! 1)"
    using assms(1-3) m unfolding const_on_iff by blast+
  then have "point (ps ! 0) = point (ps ! 1)"
    unfolding coordOf_position by (rule Vector3.expand[OF conjI[OF _ conjI]])
  then have e: "map point ps ! 0 = map point ps ! 1" using l by simp
  have "0 < length (map point ps)" "1 < length (map point ps)" "(0::nat) \<noteq> 1" using l by simp_all
  with assms(4) have "map point ps ! 0 \<noteq> map point ps ! 1"
    unfolding distinct_conv_nth by blast
  with e show False by simp
qed

section \<open>The constructor returns\<close>


lemma ctor_const_step:
  assumes "valid_axis a" "2 \<le> length ps" "const_on a ps"
    and "BVHNode6D_ctor ps (NextAxis a) = Some (Inr t)"
  shows "\<exists>t'. BVHNode6D_ctor ps a = Some (Inr t')"
  by (subst ctor_step[OF assms(1,2)])
     (simp only: const_split_all[OF assms(2,3)] assms(4) ctor_Nil Option.bind.simps sum.case, blast)

lemma ctor_nonconst_step:
  assumes "valid_axis a" "2 \<le> length ps" "\<not> const_on a ps" "distinct (map point ps)"
    and IH: "\<And>qs b. length qs < length ps \<Longrightarrow> distinct (map point qs) \<Longrightarrow> valid_axis b \<Longrightarrow>
               \<exists>t. BVHNode6D_ctor qs b = Some (Inr t)"
  shows "\<exists>t'. BVHNode6D_ctor ps a = Some (Inr t')"
proof -
  let ?sp = "split_value (sort (map (coordOf a) ps))"
  let ?l = "filter (\<lambda>p. coordOf a p \<le> ?sp) ps"
  let ?g = "filter (\<lambda>p. \<not> coordOf a p \<le> ?sp) ps"
  have dl: "distinct (map point ?l)" "distinct (map point ?g)"
    using assms(4) by (simp_all add: distinct_map_filter)
  from IH[OF nonconst_split_proper(1)[OF assms(2,3)] dl(1) NextAxis_valid]
  obtain t1 where t1: "BVHNode6D_ctor ?l (NextAxis a) = Some (Inr t1)" by blast
  from IH[OF nonconst_split_proper(2)[OF assms(2,3)] dl(2) NextAxis_valid]
  obtain t2 where t2: "BVHNode6D_ctor ?g (NextAxis a) = Some (Inr t2)" by blast
  show ?thesis
    by (subst ctor_step[OF assms(1,2)])
       (simp only: t1 t2 Option.bind.simps sum.case, blast)
qed

lemma NextAxis_cycle:
  "valid_axis a \<Longrightarrow>
   {NextAxis a, NextAxis (NextAxis a), NextAxis (NextAxis (NextAxis a))} = {0, 1, 2}"
  by (auto simp: NextAxis_def valid_axis_def)

lemma ctor_returns:
  "distinct (map point ps) \<Longrightarrow> valid_axis a \<Longrightarrow> \<exists>t. BVHNode6D_ctor ps a = Some (Inr t)"
proof (induction "length ps" arbitrary: ps a rule: less_induct)
  case less
  note IH = less.hyps
  show ?case
  proof (cases "2 \<le> length ps")
    case False
    then consider "ps = []" | p where "ps = [p]"
      by (cases ps; cases "tl ps") auto
    then show ?thesis by cases (auto simp: ctor_Nil ctor_single)
  next
    case True
    have small: "\<And>qs b. length qs < length ps \<Longrightarrow> distinct (map point qs) \<Longrightarrow> valid_axis b \<Longrightarrow>
               \<exists>t. BVHNode6D_ctor qs b = Some (Inr t)"
      using IH by blast
    have nc: "\<And>b. valid_axis b \<Longrightarrow> \<not> const_on b ps \<Longrightarrow> \<exists>t. BVHNode6D_ctor ps b = Some (Inr t)"
      using ctor_nonconst_step[OF _ True _ less.prems(1) small] by blast
    have cs: "\<And>b. valid_axis b \<Longrightarrow> (\<exists>t. BVHNode6D_ctor ps (NextAxis b) = Some (Inr t)) \<Longrightarrow>
                 \<exists>t. BVHNode6D_ctor ps b = Some (Inr t)"
    proof -
      fix b assume b: "valid_axis b" "\<exists>t. BVHNode6D_ctor ps (NextAxis b) = Some (Inr t)"
      show "\<exists>t. BVHNode6D_ctor ps b = Some (Inr t)"
      proof (cases "const_on b ps")
        case True
        with b ctor_const_step[OF b(1) \<open>2 \<le> length ps\<close> True] show ?thesis by blast
      next
        case False
        with nc b(1) show ?thesis by blast
      qed
    qed
    let ?a1 = "NextAxis a"
    let ?a2 = "NextAxis ?a1"
    let ?a3 = "NextAxis ?a2"
    have v: "valid_axis ?a1" "valid_axis ?a2" "valid_axis ?a3" by (rule NextAxis_valid)+
    have "\<not> (const_on ?a1 ps \<and> const_on ?a2 ps \<and> const_on ?a3 ps)"
    proof
      assume c: "const_on ?a1 ps \<and> const_on ?a2 ps \<and> const_on ?a3 ps"
      have "\<forall>b \<in> {?a1, ?a2, ?a3}. const_on b ps" using c by simp
      then have "\<forall>b \<in> {0, 1, 2}. const_on b ps"
        unfolding NextAxis_cycle[OF less.prems(2)] .
      then have "length ps \<le> 1" using const_position_short[OF _ _ _ less.prems(1)] by simp
      with True show False by simp
    qed
    then consider "\<not> const_on ?a1 ps" | "\<not> const_on ?a2 ps" | "\<not> const_on ?a3 ps" by blast
    then have "\<exists>t. BVHNode6D_ctor ps ?a1 = Some (Inr t)"
    proof cases
      case 1 then show ?thesis using nc v by blast
    next
      case 2 then show ?thesis using nc cs v by blast
    next
      case 3 then show ?thesis using nc cs v by blast
    qed
    then show ?thesis using cs less.prems(2) by blast
  qed
qed

section \<open>What a returned tree looks like\<close>

lemma length_1_conv: "length ps = 1 \<Longrightarrow> ps = [ps ! 0]"
  by (cases ps) auto

lemma ctor_induct [consumes 1, case_names Empty Leaf Interior]:
  assumes r: "BVHNode6D_ctor ps a = Some (Inr t)"
    and E: "\<And>a. P [] a (BVHNode6D Empty 0 a 0 v_zero (- 1) 1 [])"
    and L: "\<And>p a. P [p] a (BVHNode6D Leaf 0 a (mass p) (point p) (int (elementID p)) 1 [])"
    and I: "\<And>ps a sp l g t1 t2. 2 \<le> length ps \<Longrightarrow> AxisSplittingPlane ps a = Inr sp \<Longrightarrow>
              split_points ps a sp ([], []) = Inr (l, g) \<Longrightarrow>
              P l (NextAxis a) t1 \<Longrightarrow> P g (NextAxis a) t2 \<Longrightarrow> P ps a (Interior_of a t1 t2)"
  shows "P ps a t"
proof -
  have "\<forall>t. y = Inr t \<longrightarrow> P ps a t" if "BVHNode6D_ctor ps a = Some y" for y
  proof (rule BVHNode6D_ctor.raw_induct[where P = "\<lambda>ps a y. \<forall>t. y = Inr t \<longrightarrow> P ps a t", OF _ that],
      goal_cases)
    case (1 f ps a y)
    show ?case
    proof (cases "length ps = 0")
      case True
      with 1(2) E show ?thesis by auto
    next
      case n0: False
      show ?thesis
      proof (cases "length ps = 1")
        case True
        with 1(2) n0 have "y = Inr (BVHNode6D Leaf 0 a (mass (ps ! 0)) (point (ps ! 0)) (int (elementID (ps ! 0))) 1 [])"
          by simp
        moreover have "ps = [ps ! 0]" using True by (rule length_1_conv)
        ultimately show ?thesis using L[of "ps ! 0" a] by simp
      next
        case n1: False
        have len: "2 \<le> length ps" using n0 n1 by linarith
        show ?thesis
        proof (intro allI impI)
          fix t assume y: "y = Inr t"
          from 1(2) n0 n1 y obtain sp where sp: "AxisSplittingPlane ps a = Inr sp"
            by (cases "AxisSplittingPlane ps a") auto
          from 1(2) n0 n1 y sp obtain l g where lg: "split_points ps a sp ([], []) = Inr (l, g)"
            by (cases "split_points ps a sp ([], [])") auto
          from 1(2) n0 n1 y sp lg obtain r1 where r1: "f l (NextAxis a) = Some r1"
            by (cases "f l (NextAxis a)") auto
          from 1(2) n0 n1 y sp lg r1 obtain t1 where t1: "r1 = Inr t1"
            by (cases r1) auto
          from 1(2) n0 n1 y sp lg r1 t1 obtain r2 where r2: "f g (NextAxis a) = Some r2"
            by (cases "f g (NextAxis a)") auto
          from 1(2) n0 n1 y sp lg r1 t1 r2 obtain t2 where t2: "r2 = Inr t2"
            by (cases r2) auto
          from 1(2) n0 n1 y sp lg r1 t1 r2 t2 have t: "t = Interior_of a t1 t2"
            by (simp add: Interior_of_def)
          have "P l (NextAxis a) t1" using 1(1)[OF r1] t1 by simp
          moreover have "P g (NextAxis a) t2" using 1(1)[OF r2] t2 by simp
          ultimately show "P ps a t" unfolding t by (rule I[OF len sp lg])
        qed
      qed
    qed
  qed
  with r show ?thesis by simp
qed

lemma split_points_mset:
  "split_points ps a sp (l0, g0) = Inr (l, g) \<Longrightarrow> mset l + mset g = mset l0 + mset g0 + mset ps"
proof (induction ps arbitrary: l0 g0)
  case Nil
  then show ?case by simp
next
  case (Cons p ps)
  then show ?case
    by (cases "GetCoordFromBody p a") (auto split: if_splits)
qed

lemma nodes_of_Interior_of:
  "nodes_of (Interior_of a t1 t2) = Interior_of a t1 t2 # nodes_of t1 @ nodes_of t2"
  by (simp add: Interior_of_def)

lemma leaf_bodies_Interior_of:
  "leaf_bodies (Interior_of a t1 t2) = leaf_bodies t1 @ leaf_bodies t2"
  by (simp add: Interior_of_def)

lemma Interior_of_sel:
  "splitAxis (Interior_of a t1 t2) = a" "children (Interior_of a t1 t2) = [t1, t2]"
  "nodeType (Interior_of a t1 t2) = Interior"
  "totalMass (Interior_of a t1 t2) = totalMass t1 + totalMass t2"
  "centerOfMass (Interior_of a t1 t2) =
     v_sdiv (v_add (v_smult (totalMass t1) (centerOfMass t1)) (v_smult (totalMass t2) (centerOfMass t2)))
       (totalMass t1 + totalMass t2)"
  by (simp_all add: Interior_of_def averageDataFromChildren_def v_add_def v_zero_def)

lemma ctor_leaf_bodies:
  assumes "BVHNode6D_ctor ps a = Some (Inr t)"
  shows "mset (leaf_bodies t) = mset (map (\<lambda>p. (mass p, point p)) ps)"
  using assms
proof (induction rule: ctor_induct)
  case (Interior ps a sp l g t1 t2)
  from split_points_mset[OF Interior(3)] have "mset ps = mset l + mset g" by simp
  then have "mset (map (\<lambda>p. (mass p, point p)) ps) =
      mset (map (\<lambda>p. (mass p, point p)) l) + mset (map (\<lambda>p. (mass p, point p)) g)"
    by (metis image_mset_union mset_map)
  with Interior(4,5) show ?case by (simp add: leaf_bodies_Interior_of)
qed simp_all

lemma ctor_axes:
  assumes "BVHNode6D_ctor ps a = Some (Inr t)"
  shows "splitAxis t = a \<and> axes_advance t"
  using assms
proof (induction rule: ctor_induct)
  case (Interior ps a sp l g t1 t2)
  then show ?case
    by (simp add: axes_advance_def nodes_of_Interior_of Interior_of_sel)
qed (simp_all add: axes_advance_def)

section \<open>A concrete build\<close>

lemma upt_0_2: "[0..<2] = [0, 1]"
  by (simp add: upt_conv_Cons)

lemma upt_0_3: "[0..<3] = [0, 1, 2]"
  by (simp add: upt_conv_Cons)

lemma ctor_abc: "BVHNode6D_ctor [body_a, body_b, body_c] 0 = Some (Inr built_abc)"
  by (simp add: BVHNode6D_ctor.simps AxisSplittingPlane_def GetCoordFromBody_def
      chosen_splitIndex_def sumSquares_def coord_at_def NextAxis_def SIZE_MAX_def upt_0_2 upt_0_3
      averageDataFromChildren_def v_add_def v_smult_def v_sdiv_def v_zero_def
      body_a_def body_b_def body_c_def built_abc_def)

lemma Create_abc: "Create6DBVHFromMesh [body_a, body_b, body_c] = Some (Inr tree_abc)"
  by (simp add: Create6DBVHFromMesh_def ctor_abc) (simp add: built_abc_def tree_abc_def)

section \<open>Numbering the nodes changes nothing else\<close>

lemma erase_assign:
  "erase_ids (fst (assignIDsRecursively t k)) = erase_ids t"
  "map erase_ids (fst (assignIDs_children cs k)) = map erase_ids cs"
  by (induction t k and cs k rule: assignIDsRecursively_assignIDs_children.induct)
     (auto split: prod.splits)

lemma erase_ids_sel:
  "nodeType (erase_ids N) = nodeType N" "totalMass (erase_ids N) = totalMass N"
  "centerOfMass (erase_ids N) = centerOfMass N" "splitAxis (erase_ids N) = splitAxis N"
  "children (erase_ids N) = map erase_ids (children N)"
  by (cases N; simp)+

lemma leaf_bodies_erase: "leaf_bodies (erase_ids N) = leaf_bodies N"
proof (induction N)
  case (BVHNode6D ty i ax m c e k cs)
  then have eq: "map (\<lambda>x. leaf_bodies (erase_ids x)) cs = map leaf_bodies cs"
    by (intro map_cong refl) auto
  show ?case by (simp add: comp_def eq del: map_eq_conv)
qed

lemma nodes_of_erase: "nodes_of (erase_ids N) = map erase_ids (nodes_of N)"
proof (induction N)
  case (BVHNode6D ty i ax m c e k cs)
  then have eq: "map (\<lambda>x. nodes_of (erase_ids x)) cs = map (\<lambda>x. map erase_ids (nodes_of x)) cs"
    by (intro map_cong refl) auto
  show ?case by (simp add: map_concat comp_def eq del: map_eq_conv)
qed

lemma mass_centre_ok_erase: "mass_centre_ok (erase_ids N) = mass_centre_ok N"
  by (simp add: mass_centre_ok_def leaf_mass_def leaf_moment_def erase_ids_sel leaf_bodies_erase)

lemma ctor_erase:
  assumes "BVHNode6D_ctor ps a = Some (Inr t)"
  shows "erase_ids t = t"
  using assms by (induction rule: ctor_induct) (simp_all add: Interior_of_def)

section \<open>Masses and centres\<close>

lemma v_add_zero: "v_add v_zero a = a" "v_add a v_zero = a"
  by (simp_all add: v_add_def v_zero_def)

lemma v_add_assoc: "v_add (v_add a b) c = v_add a (v_add b c)"
  by (simp add: v_add_def)

lemma v_sum_append: "v_sum (xs @ ys) = v_add (v_sum xs) (v_sum ys)"
  by (induction xs) (simp_all add: v_sum_def v_add_zero v_add_assoc)

lemma v_smult_sdiv: "m \<noteq> 0 \<Longrightarrow> v_smult m (v_sdiv a m) = a"
  by (simp add: v_smult_def v_sdiv_def)

lemma v_sdiv_smult: "m \<noteq> 0 \<Longrightarrow> v_sdiv (v_smult m a) m = a"
  by (simp add: v_smult_def v_sdiv_def)

lemma sum_list_mass_pos:
  "ps \<noteq> [] \<Longrightarrow> list_all (\<lambda>p. 0 < mass p) ps \<Longrightarrow> 0 < sum_list (map mass ps)"
proof (induction ps)
  case Nil
  then show ?case by simp
next
  case (Cons p ps)
  show ?case
  proof (cases "ps = []")
    case True
    with Cons.prems show ?thesis by simp
  next
    case False
    with Cons have "0 < sum_list (map mass ps)" "0 < mass p" by simp_all
    then show ?thesis by simp
  qed
qed

lemma leaf_mass_bodies:
  "mset (leaf_bodies t) = mset (map (\<lambda>p. (mass p, point p)) ps) \<Longrightarrow>
   leaf_mass t = sum_list (map mass ps)"
proof -
  assume e: "mset (leaf_bodies t) = mset (map (\<lambda>p. (mass p, point p)) ps)"
  have "sum_mset (image_mset fst (mset (leaf_bodies t))) =
        sum_mset (image_mset fst (mset (map (\<lambda>p. (mass p, point p)) ps)))"
    by (simp only: e)
  then show ?thesis
    by (simp add: leaf_mass_def sum_mset_sum_list[symmetric] image_mset.compositionality comp_def)
qed

lemma ctor_mass_centre:
  assumes "BVHNode6D_ctor ps a = Some (Inr t)" "list_all (\<lambda>p. 0 < mass p) ps"
  shows "list_all mass_centre_ok (nodes_of t)"
proof -
  have "list_all (\<lambda>p. 0 < mass p) ps \<longrightarrow>
          list_all mass_centre_ok (nodes_of t) \<and> leaf_mass t = sum_list (map mass ps)"
    using assms(1)
  proof (induction rule: ctor_induct)
    case (Empty a)
    then show ?case
      by (simp add: mass_centre_ok_def leaf_mass_def leaf_moment_def v_sum_def v_smult_def v_zero_def)
  next
    case (Leaf p a)
    then show ?case
      by (simp add: mass_centre_ok_def leaf_mass_def leaf_moment_def v_sum_def v_add_zero v_sdiv_smult)
  next
    case (Interior ps a sp l g t1 t2)
    show ?case
    proof
      assume pos: "list_all (\<lambda>p. 0 < mass p) ps"
      from split_points_mset[OF Interior(3)] have ms: "mset ps = mset l + mset g" by simp
      then have "set ps = set l \<union> set g" by (metis set_mset_mset set_mset_union)
      with pos have pl: "list_all (\<lambda>p. 0 < mass p) l" and pg: "list_all (\<lambda>p. 0 < mass p) g"
        by (simp_all add: list_all_iff)
      from Interior(4) pl have h1: "list_all mass_centre_ok (nodes_of t1)" "leaf_mass t1 = sum_list (map mass l)"
        by simp_all
      from Interior(5) pg have h2: "list_all mass_centre_ok (nodes_of t2)" "leaf_mass t2 = sum_list (map mass g)"
        by simp_all
      have ok1: "mass_centre_ok t1" using h1(1) by (cases t1) simp
      have ok2: "mass_centre_ok t2" using h2(1) by (cases t2) simp
      have "sum_mset (image_mset mass (mset ps)) = sum_mset (image_mset mass (mset l + mset g))"
        by (simp only: ms)
      then have total: "sum_list (map mass ps) = sum_list (map mass l) + sum_list (map mass g)"
        by (simp add: sum_mset_sum_list[symmetric])
      have "ps \<noteq> []" using Interior(1) by auto
      from sum_list_mass_pos[OF this pos] have mpos: "0 < leaf_mass t1 + leaf_mass t2"
        by (simp add: total h1(2) h2(2))
      have lm: "leaf_mass (Interior_of a t1 t2) = leaf_mass t1 + leaf_mass t2"
        by (simp add: leaf_mass_def leaf_bodies_Interior_of)
      have mo: "leaf_moment (Interior_of a t1 t2) = v_add (leaf_moment t1) (leaf_moment t2)"
        by (simp add: leaf_moment_def leaf_bodies_Interior_of v_sum_append)
      have tm: "totalMass t1 = leaf_mass t1" "totalMass t2 = leaf_mass t2"
        using ok1 ok2 unfolding mass_centre_ok_def by blast+
      have "v_smult (totalMass t1) (centerOfMass t1) = leaf_moment t1"
        using ok1 unfolding mass_centre_ok_def by blast
      then have cm1: "v_smult (leaf_mass t1) (centerOfMass t1) = leaf_moment t1"
        unfolding tm(1) .
      have "v_smult (totalMass t2) (centerOfMass t2) = leaf_moment t2"
        using ok2 unfolding mass_centre_ok_def by blast
      then have cm2: "v_smult (leaf_mass t2) (centerOfMass t2) = leaf_moment t2"
        unfolding tm(2) .
      note cm = cm1 cm2
      have "mass_centre_ok (Interior_of a t1 t2)"
        unfolding mass_centre_ok_def Interior_of_sel lm mo tm cm
        using mpos by (simp add: v_smult_sdiv)
      then show "list_all mass_centre_ok (nodes_of (Interior_of a t1 t2)) \<and>
          leaf_mass (Interior_of a t1 t2) = sum_list (map mass ps)"
        using h1 h2 by (simp add: nodes_of_Interior_of lm total)
    qed
  qed
  with assms(2) show ?thesis by simp
qed

section \<open>The claims about the hierarchy\<close>

text \<open>
  C1 (amended): during construction the split axis advances by \<open>NextAxis\<close> at each level
  of the recursion: from 0 to 1, from 1 to 2 and from 2 back to 0, so it cycles through
  the three position axes only.  The root has the axis the constructor was called with,
  every child has the axis that follows its parent's, and no child splits on a normal
  axis (3, 4, 5).
\<close>

theorem C1_axis_advances:
  assumes "BVHNode6D_ctor points axis = Some (Inr tree)"
  shows "splitAxis tree = axis \<and> axes_advance tree \<and>
         list_all (\<lambda>N. list_all (\<lambda>c. splitAxis c \<in> {0, 1, 2}) (children N)) (nodes_of tree) \<and>
         NextAxis 0 = 1 \<and> NextAxis 1 = 2 \<and> NextAxis 2 = 0"
proof -
  have a: "splitAxis tree = axis" "axes_advance tree"
    using ctor_axes[OF assms] by simp_all
  have "list_all (\<lambda>N. list_all (\<lambda>c. splitAxis c \<in> {0, 1, 2}) (children N)) (nodes_of tree)"
    using a(2) NextAxis_range unfolding axes_advance_def list_all_iff by metis
  moreover have "NextAxis 0 = 1 \<and> NextAxis 1 = 2 \<and> NextAxis 2 = 0"
    by (simp add: NextAxis_def)
  ultimately show ?thesis using a by simp
qed

theorem C1_axis_advances_witness:
  "BVHNode6D_ctor [body_a, body_b, body_c] 0 = Some (Inr built_abc) \<and>
   splitAxis built_abc = 0 \<and> axes_advance built_abc \<and>
   list_all (\<lambda>N. list_all (\<lambda>c. splitAxis c \<in> {0, 1, 2}) (children N)) (nodes_of built_abc) \<and>
   map splitAxis (nodes_of built_abc) = [0, 1, 2, 0, 1, 1, 0, 2, 1]"
proof -
  have "map splitAxis (nodes_of built_abc) = [0, 1, 2, 0, 1, 1, 0, 2, 1]"
    by (simp add: built_abc_def)
  with C1_axis_advances[OF ctor_abc] ctor_abc show ?thesis by simp
qed

text \<open>
  In exact arithmetic, for every node of the hierarchy that \<open>Create6DBVHFromMesh\<close> returns
  for faces of positive area, \<open>totalMass\<close> is the sum of the masses of the leaves below the
  node and \<open>centerOfMass\<close> is the mass-weighted mean of their barycenters; an empty node
  has no leaves, mass 0 and the zero vector as centre.  The leaves of the whole tree are
  the input bodies.
\<close>

lemma mass_and_centre_exact:
  assumes "Create6DBVHFromMesh verts = Some (Inr tree)"
    and "list_all (\<lambda>p. 0 < mass p) verts"
  shows "mset (leaf_bodies tree) = mset (map (\<lambda>p. (mass p, point p)) verts) \<and>
         list_all mass_centre_ok (nodes_of tree)"
proof -
  from assms(1) obtain t where t: "BVHNode6D_ctor verts 0 = Some (Inr t)"
    and tree: "tree = fst (assignIDsRecursively t 0)"
    by (auto simp: Create6DBVHFromMesh_def split: Option.bind_splits sum.splits)
  have e: "erase_ids tree = t"
    unfolding tree erase_assign(1) by (rule ctor_erase[OF t])
  have "leaf_bodies tree = leaf_bodies t"
    using leaf_bodies_erase[of tree] e by simp
  then have l: "mset (leaf_bodies tree) = mset (map (\<lambda>p. (mass p, point p)) verts)"
    using ctor_leaf_bodies[OF t] by simp
  have "list_all mass_centre_ok (nodes_of (erase_ids tree))"
    unfolding e by (rule ctor_mass_centre[OF t assms(2)])
  then have "list_all mass_centre_ok (nodes_of tree)"
    by (simp add: nodes_of_erase list_all_iff mass_centre_ok_erase)
  with l show ?thesis by simp
qed

lemma mass_and_centre_exact_abc:
  "Create6DBVHFromMesh [body_a, body_b, body_c] = Some (Inr tree_abc) \<and>
   list_all (\<lambda>p. 0 < mass p) [body_a, body_b, body_c] \<and>
   mset (leaf_bodies tree_abc) = mset (map (\<lambda>p. (mass p, point p)) [body_a, body_b, body_c]) \<and>
   list_all mass_centre_ok (nodes_of tree_abc)"
proof -
  have pos: "list_all (\<lambda>p. 0 < mass p) [body_a, body_b, body_c]"
    by (simp add: body_a_def body_b_def body_c_def)
  from mass_and_centre_exact[OF Create_abc pos] Create_abc pos show ?thesis by blast
qed

text \<open>
  In exact arithmetic the constructor returns a tree for every vector of bodies whose
  barycenters are pairwise distinct (on each axis that \<open>GetCoordFromBody\<close> accepts): the
  recursion ends, without an error, and every body is in a leaf of its own.
\<close>

lemma ctor_terminates_exact:
  assumes "distinct (map point points)" and "valid_axis axis"
  shows "\<exists>tree. BVHNode6D_ctor points axis = Some (Inr tree) \<and>
           mset (leaf_bodies tree) = mset (map (\<lambda>p. (mass p, point p)) points)"
proof -
  from ctor_returns[OF assms] obtain tree where t: "BVHNode6D_ctor points axis = Some (Inr tree)"
    by blast
  with ctor_leaf_bodies[OF t] show ?thesis by blast
qed

lemma ctor_terminates_exact_abc:
  "distinct (map point [body_a, body_b, body_c]) \<and> valid_axis 0 \<and>
   (\<exists>tree. BVHNode6D_ctor [body_a, body_b, body_c] 0 = Some (Inr tree) \<and>
      mset (leaf_bodies tree) = mset (map (\<lambda>p. (mass p, point p)) [body_a, body_b, body_c]))"
proof -
  have d: "distinct (map point [body_a, body_b, body_c])"
    by (simp add: body_a_def body_b_def body_c_def)
  have v: "valid_axis 0" by (simp add: valid_axis_def)
  from ctor_terminates_exact[OF d v] d v show ?thesis by blast
qed

text \<open>
  In exact arithmetic, when \<open>AxisSplittingPlane\<close> is called with at least two bodies (and
  an axis for which their coordinates exist), the chosen \<open>splitIndex\<close> is at most
  \<open>nPoints - 2\<close>: the last candidate is never strictly below the first.  So
  \<open>coords[splitIndex]\<close> and \<open>coords[splitIndex + 1]\<close> are inside the vector and the function
  returns their mean.
\<close>

lemma split_index_in_bounds_exact:
  assumes "2 \<le> length points" and "body_coords points axis = Inr cs"
  shows "chosen_splitIndex (sort cs) \<le> length points - 2 \<and>
         sumSquares (sort cs) 0 \<le> sumSquares (sort cs) (length points - 1) \<and>
         coord_at (sort cs) (chosen_splitIndex (sort cs)) =
           Inr (sort cs ! chosen_splitIndex (sort cs)) \<and>
         coord_at (sort cs) (chosen_splitIndex (sort cs) + 1) =
           Inr (sort cs ! (chosen_splitIndex (sort cs) + 1)) \<and>
         AxisSplittingPlane points axis =
           Inr ((sort cs ! chosen_splitIndex (sort cs) +
                 sort cs ! (chosen_splitIndex (sort cs) + 1)) / 2)"
proof -
  have len: "length cs = length points"
    using assms(2)
  proof (induction points arbitrary: cs)
    case Nil
    then show ?case by simp
  next
    case (Cons p ps)
    then show ?case by (auto split: sum.splits)
  qed
  let ?c = "sort cs"
  have l2: "2 \<le> length ?c" using assms(1) len by simp
  have srt: "sorted ?c" by simp
  have b: "chosen_splitIndex ?c \<le> length ?c - 2" by (rule chosen_splitIndex_bound[OF srt l2])
  have i1: "chosen_splitIndex ?c < length ?c" using b l2 by linarith
  have i2: "chosen_splitIndex ?c + 1 < length ?c" using b l2 by linarith
  have s: "sumSquares ?c 0 \<le> sumSquares ?c (length ?c - 1)"
    by (rule sumSquares_0_le_last[OF srt l2])
  have c1: "coord_at ?c (chosen_splitIndex ?c) = Inr (?c ! chosen_splitIndex ?c)"
    using i1 unfolding coord_at_def by (simp only: if_True)
  have c2: "coord_at ?c (chosen_splitIndex ?c + 1) = Inr (?c ! (chosen_splitIndex ?c + 1))"
    using i2 unfolding coord_at_def by (simp only: if_True)
  have "AxisSplittingPlane points axis =
      Inr ((?c ! chosen_splitIndex ?c + ?c ! (chosen_splitIndex ?c + 1)) / 2)"
    by (simp only: AxisSplittingPlane_def assms(2) Let_def c1 c2 sum.case)
  with b s c1 c2 show ?thesis using len by simp
qed

lemma split_index_in_bounds_exact_abc:
  "2 \<le> length [body_a, body_b, body_c] \<and>
   body_coords [body_a, body_b, body_c] 0 = Inr [0, 1, 3] \<and>
   chosen_splitIndex (sort [0, 1, 3]) = 1 \<and>
   AxisSplittingPlane [body_a, body_b, body_c] 0 = Inr 2"
proof -
  have c: "body_coords [body_a, body_b, body_c] 0 = Inr [0, 1, 3]"
    by (simp add: GetCoordFromBody_def body_a_def body_b_def body_c_def)
  have l: "2 \<le> length [body_a, body_b, body_c]" by simp
  have i: "chosen_splitIndex (sort [0, 1, 3]) = 1"
    by (simp add: chosen_splitIndex_def sumSquares_def SIZE_MAX_def upt_0_3)
  from split_index_in_bounds_exact[OF l c] have
    "AxisSplittingPlane [body_a, body_b, body_c] 0 =
       Inr ((sort [0, 1, 3] ! chosen_splitIndex (sort [0, 1, 3]) +
             sort [0, 1, 3] ! (chosen_splitIndex (sort [0, 1, 3]) + 1)) / 2)"
    by blast
  then have "AxisSplittingPlane [body_a, body_b, body_c] 0 = Inr 2"
    unfolding i by simp
  with c l i show ?thesis by blast
qed

section \<open>Saving, restoring and stepping\<close>

lemma fold_update_upt_aux:
  "k \<le> length P \<Longrightarrow>
   fold (\<lambda>i Q. Q[i := g i]) [0..<k] P = map g [0..<k] @ drop k P"
proof (induction k)
  case 0
  then show ?case by simp
next
  case (Suc k)
  then have k: "k < length P" by simp
  have "fold (\<lambda>i Q. Q[i := g i]) [0..<Suc k] P = (map g [0..<k] @ drop k P)[k := g k]"
    using Suc by simp
  also have "\<dots> = map g [0..<k] @ (drop k P)[0 := g k]"
    by (simp add: list_update_append)
  also have "(drop k P)[0 := g k] = g k # drop (Suc k) P"
    using k by (simp add: Cons_nth_drop_Suc[symmetric])
  finally show ?case by simp
qed

lemma fold_update_upt:
  "fold (\<lambda>i Q. Q[i := g i]) [0..<length P] P = map g [0..<length P]"
  using fold_update_upt_aux[of "length P" P g] by simp

lemma Save_orig: "origPositions (SaveCurrentPositions st) = inputVertexPositions st"
proof -
  let ?n = "length (inputVertexPositions st)"
  have "fold (\<lambda>i M. M[i := inputVertexPositions st ! i]) [0..<?n] (replicate ?n v_zero) =
        map (\<lambda>i. inputVertexPositions st ! i) [0..<?n]"
    using fold_update_upt[of "\<lambda>i. inputVertexPositions st ! i" "replicate ?n v_zero"] by simp
  then show ?thesis
    by (simp add: SaveCurrentPositions_def nVertices_def map_nth)
qed

lemma Save_pos: "inputVertexPositions (SaveCurrentPositions st) = inputVertexPositions st"
  by (simp add: SaveCurrentPositions_def)

lemma set_positions_result:
  "set_positions f js st = Inr st' \<Longrightarrow>
   origPositions st' = origPositions st \<and>
   inputVertexPositions st' =
     fold (\<lambda>i Q. Q[i := (case f i of Inr p \<Rightarrow> p | Inl e \<Rightarrow> v_zero)]) js (inputVertexPositions st)"
proof (induction js arbitrary: st)
  case Nil
  then show ?case by simp
next
  case (Cons j js)
  then obtain p where p: "f j = Inr p" by (cases "f j") auto
  with Cons.prems have
    "set_positions f js (st\<lparr>inputVertexPositions := (inputVertexPositions st)[j := p]\<rparr>) = Inr st'"
    by simp
  from Cons.IH[OF this] p show ?case by simp
qed

lemma set_positions_ok:
  "(\<And>i. i \<in> set js \<Longrightarrow> \<exists>p. f i = Inr p) \<Longrightarrow> \<exists>st'. set_positions f js st = Inr st'"
proof (induction js arbitrary: st)
  case Nil
  then show ?case by simp
next
  case (Cons j js)
  from Cons.prems[of j] obtain p where p: "f j = Inr p" by auto
  have "\<exists>st'. set_positions f js (st\<lparr>inputVertexPositions := (inputVertexPositions st)[j := p]\<rparr>) = Inr st'"
    by (rule Cons.IH) (use Cons.prems in auto)
  with p show ?case by simp
qed

lemma set_positions_upt:
  assumes "set_positions f [0..<nVertices st] st = Inr st'"
  shows "origPositions st' = origPositions st"
    and "inputVertexPositions st' =
           map (\<lambda>i. case f i of Inr p \<Rightarrow> p | Inl e \<Rightarrow> v_zero) [0..<nVertices st]"
    and "nVertices st' = nVertices st"
proof -
  from set_positions_result[OF assms]
  show "origPositions st' = origPositions st"
    and p: "inputVertexPositions st' =
           map (\<lambda>i. case f i of Inr p \<Rightarrow> p | Inl e \<Rightarrow> v_zero) [0..<nVertices st]"
    by (simp_all add: nVertices_def fold_update_upt)
  show "nVertices st' = nVertices st" using p by (simp add: nVertices_def)
qed

lemma Restore_after_loop:
  assumes "length (origPositions st) = nVertices st"
  shows "\<exists>st'. RestorePositions st = Inr st' \<and> inputVertexPositions st' = origPositions st \<and>
           origPositions st' = origPositions st"
proof -
  have "\<exists>st'. set_positions (\<lambda>ind_v. GetRow (origPositions st) ind_v) [0..<nVertices st] st = Inr st'"
    by (rule set_positions_ok) (use assms in \<open>simp add: GetRow_def\<close>)
  then obtain st' where s: "RestorePositions st = Inr st'" by (auto simp: RestorePositions_def)
  then have s': "set_positions (\<lambda>ind_v. GetRow (origPositions st) ind_v) [0..<nVertices st] st = Inr st'"
    by (simp add: RestorePositions_def)
  have "inputVertexPositions st' = map (\<lambda>i. origPositions st ! i) [0..<nVertices st]"
    unfolding set_positions_upt(2)[OF s'] using assms by (simp add: GetRow_def)
  also have "\<dots> = origPositions st"
    unfolding assms[symmetric] by (rule map_nth)
  finally have "inputVertexPositions st' = origPositions st" .
  with s set_positions_upt(1)[OF s'] show ?thesis by simp
qed

lemma SetGradientStep_result:
  assumes "SetGradientStep st gradient delta = Inr st'"
    and "length (origPositions st) = nVertices st"
  shows "origPositions st' = origPositions st"
    and "nVertices st' = nVertices st"
    and "inputVertexPositions st' =
           map (\<lambda>i. v_sub (origPositions st ! i) (v_smult delta (gradient ! i))) [0..<nVertices st]"
proof -
  let ?f = "\<lambda>ind_v. case GetRow (origPositions st) ind_v of
                  Inl e \<Rightarrow> Inl e
                | Inr pos_v \<Rightarrow>
                   (case GetRow gradient ind_v of
                      Inl e \<Rightarrow> Inl e
                    | Inr grad_v \<Rightarrow> Inr (v_sub pos_v (v_smult delta grad_v)))"
  have s: "set_positions ?f [0..<nVertices st] st = Inr st'"
    using assms(1) by (simp add: SetGradientStep_def)
  show "origPositions st' = origPositions st" by (rule set_positions_upt(1)[OF s])
  show "nVertices st' = nVertices st" by (rule set_positions_upt(3)[OF s])
  have ok: "\<exists>p. ?f i = Inr p" if "i < nVertices st" for i
  proof (rule ccontr)
    assume n: "\<nexists>p. ?f i = Inr p"
    then obtain e where e: "?f i = Inl e" by (cases "?f i") auto
    have "i \<in> set [0..<nVertices st]" using that by simp
    then obtain xs ys where sp: "[0..<nVertices st] = xs @ i # ys" by (meson split_list)
    have "\<And>u. set_positions ?f (xs @ i # ys) u \<noteq> Inr st'"
    proof (induction xs)
      case Nil
      show ?case using e by simp
    next
      case (Cons x xs)
      show ?case using Cons.IH by (cases "?f x") simp_all
    qed
    with s sp show False by simp
  qed
  have "map (\<lambda>i. case ?f i of Inr p \<Rightarrow> p | Inl e \<Rightarrow> v_zero) [0..<nVertices st] =
        map (\<lambda>i. v_sub (origPositions st ! i) (v_smult delta (gradient ! i))) [0..<nVertices st]"
  proof (rule map_cong[OF refl])
    fix i assume "i \<in> set [0..<nVertices st]"
    then have i: "i < nVertices st" by simp
    from ok[OF i] obtain p where p: "?f i = Inr p" by blast
    then have "i < length gradient"
      using i assms(2) by (auto simp: GetRow_def split: if_splits)
    then show "(case ?f i of Inr p \<Rightarrow> p | Inl e \<Rightarrow> v_zero) =
        v_sub (origPositions st ! i) (v_smult delta (gradient ! i))"
      using i assms(2) by (simp add: GetRow_def)
  qed
  then show "inputVertexPositions st' =
           map (\<lambda>i. v_sub (origPositions st ! i) (v_smult delta (gradient ! i))) [0..<nVertices st]"
    unfolding set_positions_upt(2)[OF s] .
qed

section \<open>The line search\<close>

lemma LineSearch_loop_result:
  assumes "LineSearch_loop energy gradient E0 gn gd delta nb st = Inr (d, nb', st')"
    and "length (origPositions st) = nVertices st"
  shows "origPositions st' = origPositions st \<and> nVertices st' = nVertices st \<and>
         (\<exists>k. d = delta / 2 ^ k \<and> nb' = nb + k) \<and>
         (d \<le> LS_STEP_THRESHOLD \<or>
          accepted_step energy gradient E0 gn gd (origPositions st) (nVertices st) d
            (inputVertexPositions st'))"
  using assms
proof (induction energy gradient E0 gn gd delta nb st rule: LineSearch_loop.induct)
  case (1 energy gradient E0 gn gd delta nb st)
  have k0: "delta = delta / 2 ^ 0 \<and> nb = nb + 0" by simp
  show ?case
  proof (cases "delta > LS_STEP_THRESHOLD")
    case False
    with "1.prems"(1) have "d = delta" "nb' = nb" "st' = st"
      by (simp_all add: LineSearch_loop.simps)
    with k0 False show ?thesis by (metis linorder_not_less)
  next
    case True
    from "1.prems"(1) True obtain s where s: "SetGradientStep st gradient delta = Inr s"
      by (subst (asm) LineSearch_loop.simps) (cases "SetGradientStep st gradient delta"; simp)
    note sg = SetGradientStep_result[OF s "1.prems"(2)]
    let ?dec = "E0 - energy (inputVertexPositions s)"
    let ?tgt = "(1 / 100) * delta * gn * gd"
    show ?thesis
    proof (cases "?dec < ?tgt")
      case True
      note bk = True
      from "1.prems"(1) \<open>delta > LS_STEP_THRESHOLD\<close> s bk
      have r: "LineSearch_loop energy gradient E0 gn gd (delta / 2) (nb + 1) s = Inr (d, nb', st')"
        by (subst (asm) LineSearch_loop.simps) (simp add: Let_def)
      have len: "length (origPositions s) = nVertices s" using sg "1.prems"(2) by simp
      note ih = "1.IH"[OF \<open>delta > LS_STEP_THRESHOLD\<close> s refl refl refl bk r len]
      from ih obtain k where k: "d = delta / 2 / 2 ^ k" "nb' = nb + 1 + k" by blast
      then have "d = delta / 2 ^ (Suc k) \<and> nb' = nb + Suc k" by simp
      then have ex: "\<exists>k. d = delta / 2 ^ k \<and> nb' = nb + k" by blast
      from ih have "origPositions st' = origPositions s" "nVertices st' = nVertices s"
        "d \<le> LS_STEP_THRESHOLD \<or>
          accepted_step energy gradient E0 gn gd (origPositions s) (nVertices s) d
            (inputVertexPositions st')" by blast+
      with ex show ?thesis unfolding sg(1,2) by blast
    next
      case False
      note acc = False
      from "1.prems"(1) \<open>delta > LS_STEP_THRESHOLD\<close> s acc
      have e: "d = delta" "nb' = nb" "st' = s"
        by (subst (asm) LineSearch_loop.simps, simp add: Let_def)+
      have "accepted_step energy gradient E0 gn gd (origPositions st) (nVertices st) delta
            (inputVertexPositions s)"
        unfolding accepted_step_def using sg(3) acc by blast
      with k0 sg(1,2) show ?thesis unfolding e by blast
    qed
  qed
qed

lemma LineSearchStep_accept:
  assumes "LineSearchStep energy st gradient initGuess gradDot = Inr (delta, st')" and "0 < delta"
  shows "inputVertexPositions st' =
           map (\<lambda>i. v_sub (inputVertexPositions st ! i) (v_smult delta (gradient ! i)))
             [0..<nVertices st]"
    and "origPositions st' = inputVertexPositions st"
    and "\<exists>k. delta = initGuess / 2 ^ k"
    and "(1 / 100) * delta * matrix_norm gradient * gradDot
           \<le> energy (inputVertexPositions st) - energy (inputVertexPositions st')"
    and "0 < gradDot \<Longrightarrow> energy (inputVertexPositions st') < energy (inputVertexPositions st)"
proof -
  let ?st1 = "SaveCurrentPositions st"
  let ?E0 = "energy (inputVertexPositions st)"
  let ?gn = "matrix_norm gradient"
  have gn: "\<not> ?gn < 1 / 10 ^ 10"
    using assms by (auto simp: LineSearchStep_def Let_def)
  from assms gn obtain d nb s2 where
    l: "LineSearch_loop energy gradient ?E0 ?gn gradDot initGuess 0 ?st1 = Inr (d, nb, s2)"
    by (cases "LineSearch_loop energy gradient ?E0 ?gn gradDot initGuess 0 ?st1")
       (auto simp: LineSearchStep_def Let_def Save_pos)
  have big: "\<not> d \<le> LS_STEP_THRESHOLD"
  proof
    assume "d \<le> LS_STEP_THRESHOLD"
    with assms(1) gn l have "delta = 0"
      by (auto simp: LineSearchStep_def Let_def Save_pos split: sum.splits)
    with assms(2) show False by simp
  qed
  with assms(1) gn l have e: "delta = d" "st' = s2"
    by (auto simp: LineSearchStep_def Let_def Save_pos)
  have len: "length (origPositions ?st1) = nVertices ?st1"
    by (simp add: Save_orig nVertices_def Save_pos)
  note R = LineSearch_loop_result[OF l len]
  have r12: "origPositions s2 = origPositions ?st1" "\<exists>k. d = initGuess / 2 ^ k \<and> nb = 0 + k"
    using R by blast+
  have "accepted_step energy gradient ?E0 ?gn gradDot (origPositions ?st1) (nVertices ?st1) d
            (inputVertexPositions s2)"
    using R big by blast
  then have r34c: "inputVertexPositions s2 =
       map (\<lambda>i. v_sub (origPositions ?st1 ! i) (v_smult d (gradient ! i))) [0..<nVertices ?st1] \<and>
    \<not> ?E0 - energy (inputVertexPositions s2) < (1 / 100) * d * ?gn * gradDot"
    unfolding accepted_step_def .
  note r = r12 conjunct1[OF r34c] conjunct2[OF r34c]
  show "inputVertexPositions st' =
           map (\<lambda>i. v_sub (inputVertexPositions st ! i) (v_smult delta (gradient ! i)))
             [0..<nVertices st]"
    using r(3) by (simp add: e Save_orig nVertices_def Save_pos)
  show "origPositions st' = inputVertexPositions st" using r(1) by (simp add: e Save_orig)
  show "\<exists>k. delta = initGuess / 2 ^ k" using r(2) e by blast
  show a: "(1 / 100) * delta * matrix_norm gradient * gradDot
           \<le> energy (inputVertexPositions st) - energy (inputVertexPositions st')"
    using r(4) e by simp
  show "energy (inputVertexPositions st') < energy (inputVertexPositions st)" if "0 < gradDot"
  proof -
    have "(0::real) < 1 / 10 ^ 10" by simp
    with gn have "0 < ?gn" by linarith
    then have "0 < (1 / 100) * delta * ?gn * gradDot" using assms(2) that by simp
    with a show ?thesis by linarith
  qed
qed

lemma LineSearchStep_fail:
  assumes "\<not> matrix_norm gradient < 1 / 10 ^ 10"
    and "LineSearch_loop energy gradient (energy (inputVertexPositions st)) (matrix_norm gradient)
           gradDot initGuess 0 (SaveCurrentPositions st) = Inr (d, nb, s2)"
    and "d \<le> LS_STEP_THRESHOLD"
  shows "\<exists>st'. LineSearchStep energy st gradient initGuess gradDot = Inr (0, st') \<and>
           inputVertexPositions st' = inputVertexPositions st"
proof -
  let ?st1 = "SaveCurrentPositions st"
  have len: "length (origPositions ?st1) = nVertices ?st1"
    by (simp add: Save_orig nVertices_def Save_pos)
  from LineSearch_loop_result[OF assms(2) len]
  have r: "origPositions s2 = origPositions ?st1" "nVertices s2 = nVertices ?st1" by blast+
  then have "length (origPositions s2) = nVertices s2" using len by simp
  from Restore_after_loop[OF this] obtain s3 where
    s3: "RestorePositions s2 = Inr s3" "inputVertexPositions s3 = origPositions s2" by blast
  have "LineSearchStep energy st gradient initGuess gradDot = Inr (0, s3)"
    using assms s3(1) by (simp add: LineSearchStep_def Let_def Save_pos)
  moreover have "inputVertexPositions s3 = inputVertexPositions st"
    using s3(2) r(1) by (simp add: Save_orig)
  ultimately show ?thesis by blast
qed

section \<open>The claims about the line search\<close>

lemmas line_search_eval =
  LineSearchStep_def StepLineSearch_def SaveCurrentPositions_def RestorePositions_def
  SetGradientStep_def GetRow_def nVertices_def matrix_norm_def LS_STEP_THRESHOLD_def
  LineSearch_loop.simps v_sub_def v_smult_def v_zero_def flow_at_def Let_def

lemma LineSearchStep_sq:
  "LineSearchStep energy_sq (flow_at 1) [Vector3 2 0 0] 2 1 =
     Inr (1 / 2, \<lparr>inputVertexPositions = [Vector3 0 0 0], origPositions = [Vector3 1 0 0]\<rparr>)"
  by (simp add: line_search_eval energy_sq_def)

lemma StepLineSearch_sq:
  "StepLineSearch energy_sq differential_sq (flow_at 1) =
     Inr (1 / 2, \<lparr>inputVertexPositions = [Vector3 0 0 0], origPositions = [Vector3 1 0 0]\<rparr>)"
  by (simp add: line_search_eval energy_sq_def differential_sq_def)

lemma LineSearch_loop_lin:
  "LineSearch_loop energy_lin [Vector3 (- 1) 0 0] 0 1 1 (3 / 10 ^ 10) 0
     (SaveCurrentPositions (flow_at 0)) =
   Inr (3 / (4 * 10 ^ 10), 2,
        \<lparr>inputVertexPositions = [Vector3 (3 / (2 * 10 ^ 10)) 0 0], origPositions = [Vector3 0 0 0]\<rparr>)"
  by (simp add: line_search_eval energy_lin_def)

text \<open>
  In exact arithmetic, with an energy whose values are real numbers: when
  \<open>LineSearchStep\<close> returns a step \<open>delta > 0\<close>, every vertex is at its saved position
  minus \<open>delta\<close> times its gradient row, \<open>delta\<close> is the initial guess halved some number of
  times, and the decrease of the energy is at least
  \<open>0.01 * delta * norm gradient * gradDot\<close>; so the energy strictly decreases when
  \<open>gradDot > 0\<close>.  \<open>StepLineSearch\<close> searches from the guess \<open>1 / norm gradient\<close> with
  \<open>gradDot = 1\<close>, so each of its accepted steps strictly decreases the energy.
\<close>

lemma accepted_step_exact:
  assumes "LineSearchStep energy st gradient initGuess gradDot = Inr (delta, st')"
    and "0 < delta"
  shows "inputVertexPositions st' =
           map (\<lambda>i. v_sub (inputVertexPositions st ! i) (v_smult delta (gradient ! i)))
             [0..<nVertices st] \<and>
         origPositions st' = inputVertexPositions st \<and>
         (\<exists>k. delta = initGuess / 2 ^ k) \<and>
         (1 / 100) * delta * matrix_norm gradient * gradDot
           \<le> energy (inputVertexPositions st) - energy (inputVertexPositions st') \<and>
         (0 < gradDot \<longrightarrow> energy (inputVertexPositions st') < energy (inputVertexPositions st)) \<and>
         (\<forall>d s. StepLineSearch energy differential st = Inr (d, s) \<and> 0 < d \<longrightarrow>
            (\<exists>k. d = 1 / matrix_norm (differential (inputVertexPositions st)) / 2 ^ k) \<and>
            energy (inputVertexPositions s) < energy (inputVertexPositions st))"
proof -
  note a = LineSearchStep_accept[OF assms]
  have "(\<exists>k. d = 1 / matrix_norm (differential (inputVertexPositions st)) / 2 ^ k) \<and>
        energy (inputVertexPositions s) < energy (inputVertexPositions st)"
    if "StepLineSearch energy differential st = Inr (d, s) \<and> 0 < d" for d s
  proof -
    from that have l: "LineSearchStep energy st (differential (inputVertexPositions st))
        (1 / matrix_norm (differential (inputVertexPositions st))) 1 = Inr (d, s)" and d: "0 < d"
      by (simp_all add: StepLineSearch_def Let_def)
    from LineSearchStep_accept(3)[OF l d] LineSearchStep_accept(5)[OF l d]
    show ?thesis by simp
  qed
  with a show ?thesis by blast
qed

lemma accepted_step_exact_sq:
  "LineSearchStep energy_sq (flow_at 1) [Vector3 2 0 0] 2 1 =
     Inr (1 / 2, \<lparr>inputVertexPositions = [Vector3 0 0 0], origPositions = [Vector3 1 0 0]\<rparr>) \<and>
   (0::real) < 1 / 2 \<and>
   (1 / 100) * (1 / 2) * matrix_norm [Vector3 2 0 0] * 1
      \<le> energy_sq (inputVertexPositions (flow_at 1)) - energy_sq [Vector3 0 0 0] \<and>
   energy_sq [Vector3 0 0 0] < energy_sq (inputVertexPositions (flow_at 1)) \<and>
   StepLineSearch energy_sq differential_sq (flow_at 1) =
     Inr (1 / 2, \<lparr>inputVertexPositions = [Vector3 0 0 0], origPositions = [Vector3 1 0 0]\<rparr>)"
proof -
  have p: "(0::real) < 1 / 2" by simp
  note c = accepted_step_exact[OF LineSearchStep_sq p, of differential_sq,
      unfolded SurfaceFlow.select_convs]
  have "(0::real) < 1" by simp
  with c have "(1 / 100) * (1 / 2) * matrix_norm [Vector3 2 0 0] * 1
      \<le> energy_sq (inputVertexPositions (flow_at 1)) - energy_sq [Vector3 0 0 0]"
    and "energy_sq [Vector3 0 0 0] < energy_sq (inputVertexPositions (flow_at 1))"
    by blast+
  with LineSearchStep_sq StepLineSearch_sq p show ?thesis by blast
qed

text \<open>
  C8: when the loop of the line search ends with a step at or below the threshold
  \<open>1e-10\<close>, \<open>LineSearchStep\<close> returns 0 and every vertex position is again the one it
  had when the search began; restoring right after saving changes no position.
\<close>

theorem C8_failed_search_restores:
  assumes "\<not> matrix_norm gradient < 1 / 10 ^ 10"
    and "LineSearch_loop energy gradient (energy (inputVertexPositions st)) (matrix_norm gradient)
           gradDot initGuess 0 (SaveCurrentPositions st) = Inr (d, nb, s2)"
    and "d \<le> LS_STEP_THRESHOLD"
  shows "(\<exists>st'. LineSearchStep energy st gradient initGuess gradDot = Inr (0, st') \<and>
            inputVertexPositions st' = inputVertexPositions st) \<and>
         (\<exists>st'. RestorePositions (SaveCurrentPositions st) = Inr st' \<and>
            inputVertexPositions st' = inputVertexPositions st)"
proof -
  have "length (origPositions (SaveCurrentPositions st)) = nVertices (SaveCurrentPositions st)"
    by (simp add: Save_orig nVertices_def Save_pos)
  from Restore_after_loop[OF this]
  have "\<exists>st'. RestorePositions (SaveCurrentPositions st) = Inr st' \<and>
            inputVertexPositions st' = inputVertexPositions st"
    unfolding Save_orig by blast
  with LineSearchStep_fail[OF assms] show ?thesis by blast
qed

theorem C8_failed_search_restores_witness:
  "\<not> matrix_norm [Vector3 (- 1) 0 0] < 1 / 10 ^ 10 \<and>
   LineSearch_loop energy_lin [Vector3 (- 1) 0 0] (energy_lin (inputVertexPositions (flow_at 0)))
     (matrix_norm [Vector3 (- 1) 0 0]) 1 (3 / 10 ^ 10) 0 (SaveCurrentPositions (flow_at 0)) =
     Inr (3 / (4 * 10 ^ 10), 2,
        \<lparr>inputVertexPositions = [Vector3 (3 / (2 * 10 ^ 10)) 0 0], origPositions = [Vector3 0 0 0]\<rparr>) \<and>
   3 / (4 * 10 ^ 10) \<le> LS_STEP_THRESHOLD \<and>
   (\<exists>st'. LineSearchStep energy_lin (flow_at 0) [Vector3 (- 1) 0 0] (3 / 10 ^ 10) 1 = Inr (0, st') \<and>
      inputVertexPositions st' = inputVertexPositions (flow_at 0))"
proof -
  have n: "matrix_norm [Vector3 (- 1) 0 0] = 1" by (simp add: matrix_norm_def)
  have e: "energy_lin (inputVertexPositions (flow_at 0)) = 0" by (simp add: energy_lin_def flow_at_def)
  have g: "\<not> matrix_norm [Vector3 (- 1) 0 0] < 1 / 10 ^ 10" unfolding n by simp
  have l: "LineSearch_loop energy_lin [Vector3 (- 1) 0 0] (energy_lin (inputVertexPositions (flow_at 0)))
     (matrix_norm [Vector3 (- 1) 0 0]) 1 (3 / 10 ^ 10) 0 (SaveCurrentPositions (flow_at 0)) =
     Inr (3 / (4 * 10 ^ 10), 2,
        \<lparr>inputVertexPositions = [Vector3 (3 / (2 * 10 ^ 10)) 0 0], origPositions = [Vector3 0 0 0]\<rparr>)"
    unfolding n e by (rule LineSearch_loop_lin)
  have t: "3 / (4 * 10 ^ 10) \<le> LS_STEP_THRESHOLD" by (simp add: LS_STEP_THRESHOLD_def)
  from C8_failed_search_restores[OF g l t] g l t show ?thesis by blast
qed

section \<open>The exact product over a cluster pair\<close>

lemma AfFull_inner_result:
  assumes "\<forall>j \<in> set js. j < length v"
  shows "AfFull_inner ar ba kern s v i js (a1, av) =
     Inr (a1 + sum_list (map (\<lambda>j. ar j * kern s (ba i) (ba j)) (filter (\<lambda>j. j \<noteq> i) js)),
          av + sum_list (map (\<lambda>j. ar j * kern s (ba i) (ba j) * v ! j) (filter (\<lambda>j. j \<noteq> i) js)))"
  using assms
proof (induction js arbitrary: a1 av)
  case Nil
  then show ?case by simp
next
  case (Cons j js)
  then show ?case by (simp add: vec_at_def Let_def algebra_simps)
qed

lemma toAdd_A_entry:
  fixes ar :: "nat \<Rightarrow> real" and v :: "real list"
  shows "2 * (sum_list (map (\<lambda>j. ar j * kern s (ba i) (ba j)) js) * ar i * v ! i -
        sum_list (map (\<lambda>j. ar j * kern s (ba i) (ba j) * v ! j) js) * ar i) =
   2 * ar i * sum_list (map (\<lambda>j. ar j * kern s (ba i) (ba j) * (v ! i - v ! j)) js)"
proof (induction js)
  case Nil
  then show ?case by simp
next
  case (Cons j js)
  have "2 * (sum_list (map (\<lambda>j. ar j * kern s (ba i) (ba j)) (j # js)) * ar i * v ! i -
        sum_list (map (\<lambda>j. ar j * kern s (ba i) (ba j) * v ! j) (j # js)) * ar i) =
     2 * ar i * (ar j * kern s (ba i) (ba j) * (v ! i - v ! j)) +
     2 * (sum_list (map (\<lambda>j. ar j * kern s (ba i) (ba j)) js) * ar i * v ! i -
        sum_list (map (\<lambda>j. ar j * kern s (ba i) (ba j) * v ! j) js) * ar i)"
    by (simp add: algebra_simps)
  also note Cons.IH
  finally show ?case by (simp add: algebra_simps)
qed

lemma AfFull_outer_result:
  assumes "\<forall>j \<in> set js. j < length v" "\<forall>i \<in> set is. i < length v \<and> i < length result"
    and "distinct is"
  shows "\<exists>result'. AfFull_outer ar ba kern s v is js result = Inr result' \<and>
           length result' = length result \<and>
           (\<forall>f < length result. result' ! f =
              result ! f + (if f \<in> set is then A_entry ar ba kern s v js f else 0))"
  using assms(2,3)
proof (induction "is" arbitrary: result)
  case Nil
  then show ?case by simp
next
  case (Cons i "is")
  let ?toAdd = "A_entry ar ba kern s v js i"
  let ?r1 = "result[i := result ! i + ?toAdd]"
  have i: "i < length v" "i < length result" "i \<notin> set is" using Cons.prems by auto
  have step: "AfFull_outer ar ba kern s v (i # is) js result =
              AfFull_outer ar ba kern s v is js ?r1"
    by (simp only: AfFull_outer.simps AfFull_inner_result[OF assms(1)] add_0 sum.case prod.case
        Let_def vec_at_def i(1,2) if_True toAdd_A_entry A_entry_def)
  have "\<forall>i \<in> set is. i < length v \<and> i < length ?r1" using Cons.prems by simp
  from Cons.IH[OF this] Cons.prems(2) obtain result' where
    r: "AfFull_outer ar ba kern s v is js ?r1 = Inr result'" "length result' = length ?r1"
       "\<forall>f < length ?r1. result' ! f =
              ?r1 ! f + (if f \<in> set is then A_entry ar ba kern s v js f else 0)"
    by auto
  have "\<forall>f < length result. result' ! f =
              result ! f + (if f \<in> set (i # is) then A_entry ar ba kern s v js f else 0)"
  proof (intro allI impI)
    fix f assume f: "f < length result"
    show "result' ! f = result ! f + (if f \<in> set (i # is) then A_entry ar ba kern s v js f else 0)"
    proof (cases "f = i")
      case True
      with r(3) f i(3) show ?thesis by simp
    next
      case False
      with r(3) f show ?thesis by simp
    qed
  qed
  with r(1,2) step show ?case by simp
qed

section \<open>A concrete block cluster tree\<close>

lemma v_norm_x: "v_norm (Vector3 a 0 0) = \<bar>a\<bar>"
  by (simp add: v_norm_def)

lemma ex_sel:
  "nElements ex_root = 5" "nElements ex_L = 4" "nElements ex_R = 1"
  "cl_nodeID ex_root = 0" "cl_nodeID ex_L = 1" "cl_nodeID ex_R = 8"
  "cl_children ex_root = [ex_L, ex_R]" "cl_children ex_L = [ex_LL, ex_LR]"
  "cl_centerOfMass ex_L = Vector3 (3 / 2) 0 0" "cl_centerOfMass ex_R = Vector3 1000 0 0"
  "minCoords ex_L = Vector3 0 0 0" "maxCoords ex_L = Vector3 3 0 0"
  "minCoords ex_R = Vector3 1000 0 0" "maxCoords ex_R = Vector3 1000 0 0"
  "cl_numNodesInBranch ex_root = 9"
  by (simp_all add: ex_root_def ex_L_def ex_R_def leaf_cluster_def)

lemma ex_adm:
  "isPairAdmissible boxContainsPoint \<lparr>cluster1 = ex_L, cluster2 = ex_R\<rparr> (1 / 4)"
  "isPairAdmissible boxContainsPoint \<lparr>cluster1 = ex_R, cluster2 = ex_L\<rparr> (1 / 4)"
  "\<not> isPairAdmissible boxContainsPoint \<lparr>cluster1 = ex_L, cluster2 = ex_L\<rparr> (1 / 4)"
  "\<not> isPairAdmissible boxContainsPoint \<lparr>cluster1 = ex_root, cluster2 = ex_root\<rparr> (1 / 4)"
  by (simp_all add: isPairAdmissible_def boxContainsPoint_def nodeRatio_def ex_sel v_sub_def
      v_norm_x Let_def)

lemma upt_children: "[0..<BVH_N_CHILDREN] = [0, 1]"
  by (simp add: BVH_N_CHILDREN_def upt_conv_Cons)

lemma ex_round1:
  "splitInadmissibleNodes boxContainsPoint
     (ex_resolved\<lparr>admissiblePairs := [], inadmissiblePairs := [],
                  unresolvedPairs := [\<lparr>cluster1 = ex_root, cluster2 = ex_root\<rparr>]\<rparr>) =
   Inr (ex_resolved\<lparr>admissiblePairs := [], inadmissiblePairs := [],
          unresolvedPairs := [\<lparr>cluster1 = ex_L, cluster2 = ex_L\<rparr>, \<lparr>cluster1 = ex_L, cluster2 = ex_R\<rparr>,
                              \<lparr>cluster1 = ex_R, cluster2 = ex_L\<rparr>, \<lparr>cluster1 = ex_R, cluster2 = ex_R\<rparr>]\<rparr>)"
  by (simp add: splitInadmissibleNodes_def ex_resolved_def ex_sel ex_adm isPairSmallEnough_def
      upt_children child_at_def)

lemma ex_round2:
  "splitInadmissibleNodes boxContainsPoint
     (ex_resolved\<lparr>admissiblePairs := [], inadmissiblePairs := [],
          unresolvedPairs := [\<lparr>cluster1 = ex_L, cluster2 = ex_L\<rparr>, \<lparr>cluster1 = ex_L, cluster2 = ex_R\<rparr>,
                              \<lparr>cluster1 = ex_R, cluster2 = ex_L\<rparr>, \<lparr>cluster1 = ex_R, cluster2 = ex_R\<rparr>]\<rparr>) =
   Inr ex_resolved"
  by (simp add: splitInadmissibleNodes_def ex_resolved_def ex_sel ex_adm isPairSmallEnough_def)

lemma ex_resolve:
  "BCT_resolve boxContainsPoint
     (ex_resolved\<lparr>admissiblePairs := [], inadmissiblePairs := [],
                  unresolvedPairs := [\<lparr>cluster1 = ex_root, cluster2 = ex_root\<rparr>]\<rparr>) =
   Inr ex_resolved"
  apply (subst BCT_resolve.simps)
  apply (simp add: ex_round1)
  apply (subst BCT_resolve.simps)
  apply (simp add: ex_round2)
  apply (subst BCT_resolve.simps)
  apply (simp add: ex_resolved_def)
  done

lemma ex_organize:
  "OrganizePairsByFirst ex_resolved =
   Inr (ex_resolved\<lparr>admissibleByCluster :=
          [[], [\<lparr>cluster1 = ex_L, cluster2 = ex_R\<rparr>], [], [], [], [], [], [],
           [\<lparr>cluster1 = ex_R, cluster2 = ex_L\<rparr>]]\<rparr>)"
  by (simp add: OrganizePairsByFirst_def ex_resolved_def ex_sel eval_nat_numeral)

lemma ex_premultiply:
  "PremultiplyAf1 MetricDistanceTermFrac
     (ex_resolved\<lparr>admissibleByCluster :=
          [[], [\<lparr>cluster1 = ex_L, cluster2 = ex_R\<rparr>], [], [], [], [], [], [],
           [\<lparr>cluster1 = ex_R, cluster2 = ex_L\<rparr>]]\<rparr>) = Inr ex_bct"
  by (simp add: PremultiplyAf1_def MultiplyAfPercolated_def ex_resolved_def ex_bct_def
      CreateDataTree_def add_pair_B_def vec_at_def ex_root_def ex_L_def ex_LL_def ex_LR_def ex_R_def
      leaf_cluster_def eval_nat_numeral ex_kappa_def MetricDistanceTermFrac_def v_sub_def v_norm_x
      fun_upd_def)

lemma ex_ctor:
  "BlockClusterTree_ctor boxContainsPoint MetricDistanceTermFrac ex_root (1 / 4) 1 = Inr ex_bct"
proof -
  have "\<lparr>tree_root = ex_root, separationCoeff = 1 / 4, exp_s = 1,
                admissiblePairs = [], inadmissiblePairs = [],
                unresolvedPairs = [\<lparr>cluster1 = ex_root, cluster2 = ex_root\<rparr>],
                admissibleByCluster = [], Af_1 = []\<rparr> =
        ex_resolved\<lparr>admissiblePairs := [], inadmissiblePairs := [],
                  unresolvedPairs := [\<lparr>cluster1 = ex_root, cluster2 = ex_root\<rparr>]\<rparr>"
    by (simp add: ex_resolved_def)
  then show ?thesis
    by (simp add: BlockClusterTree_ctor_def ex_resolve ex_organize ex_premultiply)
qed

section \<open>The claims about the exact product and the build loop\<close>

text \<open>
  C2: for a cluster pair (I, J) and an input vector \<open>v\<close>, \<open>AfFullProduct\<close> adds to the
  entry of every face \<open>i\<close> of I exactly
  \<open>2 * area i * (sum over the faces j of J with j \<noteq> i of area j * k_s (x i) (x j) * (v i - v j))\<close>
  and leaves every other entry as it was; a term \<open>j = i\<close> adds nothing.  (The clusters hold
  \<open>nElements\<close> distinct face indices, all inside the vectors.)
\<close>

theorem C2_full_product:
  assumes "nElements (cluster1 pair) = length (clusterIndices (cluster1 pair))"
    and "nElements (cluster2 pair) = length (clusterIndices (cluster2 pair))"
    and "distinct (clusterIndices (cluster1 pair))"
    and "\<forall>i \<in> set (clusterIndices (cluster1 pair)). i < length v \<and> i < length result"
    and "\<forall>j \<in> set (clusterIndices (cluster2 pair)). j < length v"
  shows "\<exists>result'. AfFullProduct faceAreas faceBarycenters kern s pair v result = Inr result' \<and>
           length result' = length result \<and>
           (\<forall>f < length result. result' ! f =
              result ! f +
              (if f \<in> set (clusterIndices (cluster1 pair))
               then A_entry faceAreas faceBarycenters kern s v (clusterIndices (cluster2 pair)) f
               else 0))"
proof -
  have f1: "cluster_faces (cluster1 pair) = Inr (clusterIndices (cluster1 pair))"
    and f2: "cluster_faces (cluster2 pair) = Inr (clusterIndices (cluster2 pair))"
    using assms(1,2) by (simp_all add: cluster_faces_def)
  show ?thesis
    unfolding AfFullProduct_def f1 f2 sum.case
    by (rule AfFull_outer_result[OF assms(5,4,3)])
qed

theorem C2_full_product_witness:
  "nElements ex_LL = length (clusterIndices ex_LL) \<and>
   nElements ex_LR = length (clusterIndices ex_LR) \<and>
   distinct (clusterIndices ex_LL) \<and>
   clusterIndices ex_LL = [0, 1] \<and> clusterIndices ex_LR = [2, 3] \<and>
   (\<exists>result'. AfFullProduct ex_areas ex_barycenters MetricDistanceTermFrac 1
        \<lparr>cluster1 = ex_LL, cluster2 = ex_LR\<rparr> [1, 2, 3, 4, 5] [0, 0, 0, 0, 0] = Inr result' \<and>
      length result' = 5 \<and>
      result' ! 0 = A_entry ex_areas ex_barycenters MetricDistanceTermFrac 1 [1, 2, 3, 4, 5] [2, 3] 0 \<and>
      result' ! 1 = A_entry ex_areas ex_barycenters MetricDistanceTermFrac 1 [1, 2, 3, 4, 5] [2, 3] 1 \<and>
      result' ! 2 = 0)"
proof -
  have h: "nElements (cluster1 \<lparr>cluster1 = ex_LL, cluster2 = ex_LR\<rparr>) =
             length (clusterIndices (cluster1 \<lparr>cluster1 = ex_LL, cluster2 = ex_LR\<rparr>))"
    "nElements (cluster2 \<lparr>cluster1 = ex_LL, cluster2 = ex_LR\<rparr>) =
             length (clusterIndices (cluster2 \<lparr>cluster1 = ex_LL, cluster2 = ex_LR\<rparr>))"
    "distinct (clusterIndices (cluster1 \<lparr>cluster1 = ex_LL, cluster2 = ex_LR\<rparr>))"
    "\<forall>i \<in> set (clusterIndices (cluster1 \<lparr>cluster1 = ex_LL, cluster2 = ex_LR\<rparr>)).
        i < length [1, 2, 3, 4, 5::real] \<and> i < length [0, 0, 0, 0, 0::real]"
    "\<forall>j \<in> set (clusterIndices (cluster2 \<lparr>cluster1 = ex_LL, cluster2 = ex_LR\<rparr>)).
        j < length [1, 2, 3, 4, 5::real]"
    by (simp_all add: ex_LL_def ex_LR_def)
  from C2_full_product[OF h, of ex_areas ex_barycenters MetricDistanceTermFrac 1]
  obtain result' where r:
    "AfFullProduct ex_areas ex_barycenters MetricDistanceTermFrac 1
        \<lparr>cluster1 = ex_LL, cluster2 = ex_LR\<rparr> [1, 2, 3, 4, 5] [0, 0, 0, 0, 0] = Inr result'"
    "length result' = length [0, 0, 0, 0, 0::real]"
    "\<forall>f < length [0, 0, 0, 0, 0::real]. result' ! f =
        [0, 0, 0, 0, 0] ! f +
        (if f \<in> set (clusterIndices (cluster1 \<lparr>cluster1 = ex_LL, cluster2 = ex_LR\<rparr>))
         then A_entry ex_areas ex_barycenters MetricDistanceTermFrac 1 [1, 2, 3, 4, 5]
                (clusterIndices (cluster2 \<lparr>cluster1 = ex_LL, cluster2 = ex_LR\<rparr>)) f
         else 0)"
    by blast
  have c: "clusterIndices ex_LL = [0, 1]" "clusterIndices ex_LR = [2, 3]"
    by (simp_all add: ex_LL_def ex_LR_def)
  have "result' ! 0 = A_entry ex_areas ex_barycenters MetricDistanceTermFrac 1 [1, 2, 3, 4, 5] [2, 3] 0"
    using r(3)[rule_format, of 0] by (simp add: c)
  moreover have "result' ! 1 = A_entry ex_areas ex_barycenters MetricDistanceTermFrac 1 [1, 2, 3, 4, 5] [2, 3] 1"
    using r(3)[rule_format, of 1] by (simp add: c)
  moreover have "result' ! 2 = 0"
    using r(3)[rule_format, of 2] by (simp add: c)
  moreover have "length result' = 5" using r(2) by simp
  ultimately show ?thesis using r(1) c by (simp add: ex_LL_def ex_LR_def)
qed

section \<open>One round of the build loop\<close>

lemma isPairAdmissible_spec:
  "isPairAdmissible contains p theta = pairwise_admissible contains theta (cluster1 p) (cluster2 p)"
  by (auto simp: isPairAdmissible_def pairwise_admissible_def nodeRatio_def Let_def)

lemma isPairSmallEnough_spec:
  "isPairSmallEnough p \<longleftrightarrow>
     nElements (cluster1 p) \<le> 1 \<or> nElements (cluster2 p) \<le> 1 \<or>
     nElements (cluster1 p) + nElements (cluster2 p) \<le> 8"
  by (auto simp: isPairSmallEnough_def Let_def)

lemma subdivide_result:
  assumes "subdivide_outer p [0..<BVH_N_CHILDREN] nx = Inr nx'"
  shows "2 \<le> length (cl_children (cluster1 p)) \<and> 2 \<le> length (cl_children (cluster2 p)) \<and>
         nx' = nx @ child_pairs p"
proof -
  have l1: "2 \<le> length (cl_children (cluster1 p))"
    using assms by (auto simp: upt_children child_at_def split: if_splits sum.splits)
  have l2: "2 \<le> length (cl_children (cluster2 p))"
    using assms by (auto simp: upt_children child_at_def split: if_splits sum.splits)
  from l1 obtain a0 a1 as where a: "cl_children (cluster1 p) = a0 # a1 # as"
    by (cases "cl_children (cluster1 p)"; cases "tl (cl_children (cluster1 p))") auto
  from l2 obtain b0 b1 bs where b: "cl_children (cluster2 p) = b0 # b1 # bs"
    by (cases "cl_children (cluster2 p)"; cases "tl (cl_children (cluster2 p))") auto
  have "nx' = nx @ child_pairs p"
    using assms by (simp add: upt_children child_at_def child_pairs_def a b)
  with l1 l2 show ?thesis by simp
qed

lemma split_loop_result:
  assumes "split_loop contains theta ps (inadm, adm, nx) = Inr (inadm', adm', nx')"
  shows "inadm' = inadm @ filter (\<lambda>p. classify_pair contains theta p = MadeInadmissible) ps \<and>
         adm' = adm @ filter (\<lambda>p. classify_pair contains theta p = MadeAdmissible) ps \<and>
         nx' = nx @ concat (map child_pairs (filter (\<lambda>p. classify_pair contains theta p = Expanded) ps))"
  using assms
proof (induction ps arbitrary: inadm adm nx)
  case Nil
  then show ?case by simp
next
  case (Cons p ps)
  show ?case
  proof (cases "classify_pair contains theta p")
    case Dropped
    then have "nElements (cluster1 p) = 0 \<or> nElements (cluster2 p) = 0"
      by (auto simp: classify_pair_def split: if_splits)
    with Cons.prems have "split_loop contains theta ps (inadm, adm, nx) = Inr (inadm', adm', nx')"
      by simp
    from Cons.IH[OF this] Dropped show ?thesis by simp
  next
    case MadeInadmissible
    then have "split_loop contains theta (p # ps) (inadm, adm, nx) =
               split_loop contains theta ps (inadm @ [p], adm, nx)"
      by (auto simp: classify_pair_def isPairAdmissible_spec isPairSmallEnough_spec split: if_splits)
    with Cons.prems have "split_loop contains theta ps (inadm @ [p], adm, nx) = Inr (inadm', adm', nx')"
      by simp
    from Cons.IH[OF this] MadeInadmissible show ?thesis by simp
  next
    case MadeAdmissible
    then have "split_loop contains theta (p # ps) (inadm, adm, nx) =
               split_loop contains theta ps (inadm, adm @ [p], nx)"
      by (auto simp: classify_pair_def isPairAdmissible_spec isPairSmallEnough_spec split: if_splits)
    with Cons.prems have "split_loop contains theta ps (inadm, adm @ [p], nx) = Inr (inadm', adm', nx')"
      by simp
    from Cons.IH[OF this] MadeAdmissible show ?thesis by simp
  next
    case Expanded
    then have e: "split_loop contains theta (p # ps) (inadm, adm, nx) =
               (case subdivide_outer p [0..<BVH_N_CHILDREN] nx of
                  Inl e \<Rightarrow> Inl e
                | Inr nx1 \<Rightarrow> split_loop contains theta ps (inadm, adm, nx1))"
      by (auto simp: classify_pair_def isPairAdmissible_spec isPairSmallEnough_spec split: if_splits)
    with Cons.prems obtain nx1 where
      n1: "subdivide_outer p [0..<BVH_N_CHILDREN] nx = Inr nx1"
      and r: "split_loop contains theta ps (inadm, adm, nx1) = Inr (inadm', adm', nx')"
      by (cases "subdivide_outer p [0..<BVH_N_CHILDREN] nx") auto
    from subdivide_result[OF n1] have "nx1 = nx @ child_pairs p" by simp
    with Cons.IH[OF r] Expanded show ?thesis by simp
  qed
qed




section \<open>The pairs cover every pair of faces once\<close>

lemma cluster_wf_sel:
  assumes "cluster_wf c"
  shows "nElements c = length (clusterIndices c)" "distinct (clusterIndices c)"
    and "2 \<le> nElements c \<Longrightarrow> \<exists>a b. cl_children c = [a, b] \<and> cluster_wf a \<and> cluster_wf b \<and>
           mset (clusterIndices c) = mset (clusterIndices a) + mset (clusterIndices b)"
proof -
  obtain i ty n idx m ce lo hi e k cs where c: "c = Cluster i ty n idx m ce lo hi e k cs"
    by (cases c)
  show "nElements c = length (clusterIndices c)" "distinct (clusterIndices c)"
    using assms by (simp_all add: c)
  show "\<exists>a b. cl_children c = [a, b] \<and> cluster_wf a \<and> cluster_wf b \<and>
           mset (clusterIndices c) = mset (clusterIndices a) + mset (clusterIndices b)"
    if "2 \<le> nElements c"
  proof -
    from that assms have l: "length cs = 2" and m: "mset (concat (map clusterIndices cs)) = mset idx"
      and w: "list_all cluster_wf cs" by (simp_all add: c)
    from l obtain a b where ab: "cs = [a, b]"
      by (cases cs; cases "tl cs"; cases "tl (tl cs)") auto
    with m w show ?thesis by (simp add: c)
  qed
qed

lemma cover_count_append: "cover_count f1 f2 (xs @ ys) = cover_count f1 f2 xs + cover_count f1 f2 ys"
  by (simp add: cover_count_def)

lemma cover_count_Cons:
  "cover_count f1 f2 (p # ps) = (if covers f1 f2 p then 1 else 0) + cover_count f1 f2 ps"
  by (simp add: cover_count_def)

lemma member_split:
  assumes "mset xs = mset a + mset b" "distinct xs"
  shows "(if f \<in> set xs then 1 else 0) =
         (if f \<in> set a then 1 else 0) + (if f \<in> set b then (1::nat) else 0)"
proof -
  have d: "distinct (a @ b)" using assms by (metis distinct_append mset_append mset_eq_imp_distinct_iff)
  have s: "set xs = set a \<union> set b" using assms(1) by (metis set_mset_mset set_mset_union)
  from d have "set a \<inter> set b = {}" by simp
  with s show ?thesis by auto
qed

lemma child_pairs_cover:
  assumes "pair_wf p" "2 \<le> nElements (cluster1 p)" "2 \<le> nElements (cluster2 p)"
  shows "cover_count f1 f2 (child_pairs p) = (if covers f1 f2 p then 1 else 0)"
    and "list_all pair_wf (child_pairs p)"
proof -
  from assms(1) have w: "cluster_wf (cluster1 p)" "cluster_wf (cluster2 p)" by (simp_all add: pair_wf_def)
  from cluster_wf_sel(3)[OF w(1) assms(2)] obtain a0 a1 where
    a: "cl_children (cluster1 p) = [a0, a1]" "cluster_wf a0" "cluster_wf a1"
       "mset (clusterIndices (cluster1 p)) = mset (clusterIndices a0) + mset (clusterIndices a1)"
    by blast
  from cluster_wf_sel(3)[OF w(2) assms(3)] obtain b0 b1 where
    b: "cl_children (cluster2 p) = [b0, b1]" "cluster_wf b0" "cluster_wf b1"
       "mset (clusterIndices (cluster2 p)) = mset (clusterIndices b0) + mset (clusterIndices b1)"
    by blast
  have cp: "child_pairs p = [\<lparr>cluster1 = a0, cluster2 = b0\<rparr>, \<lparr>cluster1 = a0, cluster2 = b1\<rparr>,
                            \<lparr>cluster1 = a1, cluster2 = b0\<rparr>, \<lparr>cluster1 = a1, cluster2 = b1\<rparr>]"
    by (simp add: child_pairs_def a(1) b(1))
  show "list_all pair_wf (child_pairs p)"
    unfolding cp using a(2,3) b(2,3) by (simp add: pair_wf_def)
  note m1 = member_split[OF a(4) cluster_wf_sel(2)[OF w(1)], of f1]
  note m2 = member_split[OF b(4) cluster_wf_sel(2)[OF w(2)], of f2]
  have "(if covers f1 f2 p then 1 else 0) =
        (if f1 \<in> set (clusterIndices (cluster1 p)) then 1 else 0) *
        (if f2 \<in> set (clusterIndices (cluster2 p)) then (1::nat) else 0)"
    by (simp add: covers_def)
  also have "\<dots> = ((if f1 \<in> set (clusterIndices a0) then 1 else 0) + (if f1 \<in> set (clusterIndices a1) then 1 else 0)) *
                   ((if f2 \<in> set (clusterIndices b0) then 1 else 0) + (if f2 \<in> set (clusterIndices b1) then 1 else 0))"
    unfolding m1 m2 ..
  also have "\<dots> = cover_count f1 f2 (child_pairs p)"
    unfolding cp by (simp add: cover_count_def covers_def)
  finally show "cover_count f1 f2 (child_pairs p) = (if covers f1 f2 p then 1 else 0)" by simp
qed

lemma classify_cases:
  "classify_pair contains theta p = Dropped \<Longrightarrow>
     nElements (cluster1 p) = 0 \<or> nElements (cluster2 p) = 0"
  "classify_pair contains theta p = Expanded \<Longrightarrow>
     2 \<le> nElements (cluster1 p) \<and> 2 \<le> nElements (cluster2 p)"
  by (auto simp: classify_pair_def split: if_splits)

lemma round_cover:
  assumes "list_all pair_wf ps"
  shows "cover_count f1 f2 (filter (\<lambda>p. classify_pair contains theta p = MadeAdmissible) ps) +
         cover_count f1 f2 (filter (\<lambda>p. classify_pair contains theta p = MadeInadmissible) ps) +
         cover_count f1 f2 (concat (map child_pairs (filter (\<lambda>p. classify_pair contains theta p = Expanded) ps))) =
         cover_count f1 f2 ps"
    and "list_all pair_wf (concat (map child_pairs (filter (\<lambda>p. classify_pair contains theta p = Expanded) ps)))"
  using assms
proof (induction ps)
  case Nil
  {
    case 1
    show ?case by (simp add: cover_count_def)
  next
    case 2
    show ?case by simp
  }
next
  case (Cons p ps)
  {
    case 1
    then have w: "pair_wf p" and ws: "list_all pair_wf ps" by simp_all
    note ih = Cons.IH(1)[OF ws]
    show ?case
    proof (cases "classify_pair contains theta p")
      case Dropped
      from classify_cases(1)[OF this] w have "\<not> covers f1 f2 p"
        using cluster_wf_sel(1)[of "cluster1 p"] cluster_wf_sel(1)[of "cluster2 p"]
        by (auto simp: covers_def pair_wf_def)
      with ih Dropped show ?thesis by (simp add: cover_count_Cons)
    next
      case MadeInadmissible
      with ih show ?thesis by (simp add: cover_count_Cons)
    next
      case MadeAdmissible
      with ih show ?thesis by (simp add: cover_count_Cons)
    next
      case Expanded
      from classify_cases(2)[OF this] have n: "2 \<le> nElements (cluster1 p)" "2 \<le> nElements (cluster2 p)"
        by simp_all
      from child_pairs_cover(1)[OF w n] ih Expanded show ?thesis
        by (simp add: cover_count_Cons cover_count_append)
    qed
  next
    case 2
    then have w: "pair_wf p" and ws: "list_all pair_wf ps" by simp_all
    note ih = Cons.IH(2)[OF ws]
    show ?case
    proof (cases "classify_pair contains theta p = Expanded")
      case True
      from classify_cases(2)[OF this] have n: "2 \<le> nElements (cluster1 p)" "2 \<le> nElements (cluster2 p)"
        by simp_all
      from child_pairs_cover(2)[OF w n] ih True show ?thesis by simp
    next
      case False
      with ih show ?thesis by simp
    qed
  }
qed

lemma subdivide_ok:
  assumes "length (cl_children (cluster1 p)) = 2" "length (cl_children (cluster2 p)) = 2"
  shows "\<exists>nx'. subdivide_outer p [0..<BVH_N_CHILDREN] nx = Inr nx'"
  using assms by (simp add: upt_children child_at_def)

lemma split_loop_ok:
  assumes "list_all pair_wf ps"
  shows "\<exists>r. split_loop contains theta ps (inadm, adm, nx) = Inr r"
  using assms
proof (induction ps arbitrary: inadm adm nx)
  case Nil
  then show ?case by simp
next
  case (Cons p ps)
  then have w: "pair_wf p" and ws: "list_all pair_wf ps" by simp_all
  show ?case
  proof (cases "classify_pair contains theta p = Expanded")
    case False
    then have "\<exists>i a. split_loop contains theta (p # ps) (inadm, adm, nx) =
               split_loop contains theta ps (i, a, nx)"
      by (auto simp: classify_pair_def isPairAdmissible_spec isPairSmallEnough_spec split: if_splits)
    with Cons.IH[OF ws] show ?thesis by metis
  next
    case True
    then have e: "split_loop contains theta (p # ps) (inadm, adm, nx) =
               (case subdivide_outer p [0..<BVH_N_CHILDREN] nx of
                  Inl e \<Rightarrow> Inl e
                | Inr nx1 \<Rightarrow> split_loop contains theta ps (inadm, adm, nx1))"
      by (auto simp: classify_pair_def isPairAdmissible_spec isPairSmallEnough_spec split: if_splits)
    from classify_cases(2)[OF True] have n: "2 \<le> nElements (cluster1 p)" "2 \<le> nElements (cluster2 p)"
      by simp_all
    from w have w': "cluster_wf (cluster1 p)" "cluster_wf (cluster2 p)" by (simp_all add: pair_wf_def)
    from cluster_wf_sel(3)[OF w'(1) n(1)] cluster_wf_sel(3)[OF w'(2) n(2)]
    have "length (cl_children (cluster1 p)) = 2" "length (cl_children (cluster2 p)) = 2" by auto
    from subdivide_ok[OF this] obtain nx1 where "subdivide_outer p [0..<BVH_N_CHILDREN] nx = Inr nx1"
      by blast
    with e Cons.IH[OF ws] show ?thesis by simp
  qed
qed

lemma BCT_resolve_cover:
  assumes "list_all pair_wf (unresolvedPairs t)"
  shows "\<exists>r. BCT_resolve contains t = Inr r \<and> unresolvedPairs r = [] \<and>
           (\<forall>f1 f2. cover_count f1 f2 (admissiblePairs r @ inadmissiblePairs r) =
              cover_count f1 f2 (admissiblePairs t @ inadmissiblePairs t @ unresolvedPairs t))"
  using assms
proof (induction contains t rule: BCT_resolve.induct)
  case (1 contains t)
  show ?case
  proof (cases "unresolvedPairs t = []")
    case True
    then show ?thesis by (simp add: BCT_resolve.simps)
  next
    case False
    from split_loop_ok[OF "1.prems"] obtain i' a' n' where
      l: "split_loop contains (separationCoeff t) (unresolvedPairs t)
            (inadmissiblePairs t, admissiblePairs t, []) = Inr (i', a', n')"
      by (metis prod_cases3)
    define t' where "t' = t\<lparr>inadmissiblePairs := i', admissiblePairs := a', unresolvedPairs := n'\<rparr>"
    have sp: "splitInadmissibleNodes contains t = Inr t'"
      by (simp add: splitInadmissibleNodes_def l t'_def)
    note res = split_loop_result[OF l]
    note rc = round_cover[OF "1.prems", where contains = contains and theta = "separationCoeff t"]
    have w': "list_all pair_wf (unresolvedPairs t')"
      using rc(2) res by (simp add: t'_def)
    from "1.IH"[OF False sp w'] obtain r where
      r: "BCT_resolve contains t' = Inr r" "unresolvedPairs r = []"
         "\<forall>f1 f2. cover_count f1 f2 (admissiblePairs r @ inadmissiblePairs r) =
              cover_count f1 f2 (admissiblePairs t' @ inadmissiblePairs t' @ unresolvedPairs t')"
      by blast
    have step: "cover_count f1 f2 (admissiblePairs t' @ inadmissiblePairs t' @ unresolvedPairs t') =
                cover_count f1 f2 (admissiblePairs t @ inadmissiblePairs t @ unresolvedPairs t)" for f1 f2
      using rc(1)[of f1 f2] res by (simp add: t'_def cover_count_append)
    have "BCT_resolve contains t = Inr r"
      using False sp r(1) by (subst BCT_resolve.simps) simp
    with r(2,3) step show ?thesis by simp
  qed
qed

lemma ctor_lists:
  assumes "BlockClusterTree_ctor contains kern bvh_root sepCoeff s = Inr t"
  shows "\<exists>r. BCT_resolve contains
               \<lparr>tree_root = bvh_root, separationCoeff = sepCoeff, exp_s = s,
                admissiblePairs = [], inadmissiblePairs = [],
                unresolvedPairs = [\<lparr>cluster1 = bvh_root, cluster2 = bvh_root\<rparr>],
                admissibleByCluster = [], Af_1 = []\<rparr> = Inr r \<and>
             admissiblePairs t = admissiblePairs r \<and> inadmissiblePairs t = inadmissiblePairs r"
  using assms
  by (auto simp: BlockClusterTree_ctor_def OrganizePairsByFirst_def PremultiplyAf1_def Let_def
      split: sum.splits)

text \<open>
  C5: after the construction over a well-formed hierarchy, every ordered pair of faces
  \<open>(f1, f2)\<close> of the root (the diagonal included) is covered by exactly one cluster pair of
  the admissible and inadmissible lists together, and no other pair of indices is covered.
\<close>

theorem C5_pairs_partition:
  assumes "cluster_wf bvh_root"
    and "BlockClusterTree_ctor contains kern bvh_root sepCoeff s = Inr t"
  shows "cover_count f1 f2 (admissiblePairs t @ inadmissiblePairs t) =
           (if f1 \<in> set (clusterIndices bvh_root) \<and> f2 \<in> set (clusterIndices bvh_root)
            then 1 else 0)"
proof -
  let ?t0 = "\<lparr>tree_root = bvh_root, separationCoeff = sepCoeff, exp_s = s,
                admissiblePairs = [], inadmissiblePairs = [],
                unresolvedPairs = [\<lparr>cluster1 = bvh_root, cluster2 = bvh_root\<rparr>],
                admissibleByCluster = [], Af_1 = []\<rparr>"
  from ctor_lists[OF assms(2)] obtain r where
    r: "BCT_resolve contains ?t0 = Inr r"
       "admissiblePairs t = admissiblePairs r" "inadmissiblePairs t = inadmissiblePairs r"
    by blast
  have "list_all pair_wf (unresolvedPairs ?t0)" using assms(1) by (simp add: pair_wf_def)
  from BCT_resolve_cover[OF this, of contains] r(1)
  have "cover_count f1 f2 (admissiblePairs r @ inadmissiblePairs r) =
        cover_count f1 f2 (admissiblePairs ?t0 @ inadmissiblePairs ?t0 @ unresolvedPairs ?t0)"
    by auto
  then show ?thesis
    by (simp add: r(2,3) cover_count_def covers_def)
qed

theorem C5_pairs_partition_witness:
  "cluster_wf ex_root \<and>
   BlockClusterTree_ctor boxContainsPoint MetricDistanceTermFrac ex_root (1 / 4) 1 = Inr ex_bct \<and>
   clusterIndices ex_root = [0, 1, 2, 3, 4] \<and>
   cover_count 0 4 (admissiblePairs ex_bct @ inadmissiblePairs ex_bct) = 1 \<and>
   cover_count 2 2 (admissiblePairs ex_bct @ inadmissiblePairs ex_bct) = 1 \<and>
   cover_count 0 5 (admissiblePairs ex_bct @ inadmissiblePairs ex_bct) = 0"
proof -
  have w: "cluster_wf ex_root"
    by (simp add: ex_root_def ex_L_def ex_LL_def ex_LR_def ex_R_def leaf_cluster_def)
  have c: "clusterIndices ex_root = [0, 1, 2, 3, 4]" by (simp add: ex_root_def)
  note p = C5_pairs_partition[OF w ex_ctor]
  have "cover_count 0 4 (admissiblePairs ex_bct @ inadmissiblePairs ex_bct) = 1"
    "cover_count 2 2 (admissiblePairs ex_bct @ inadmissiblePairs ex_bct) = 1"
    "cover_count 0 5 (admissiblePairs ex_bct @ inadmissiblePairs ex_bct) = 0"
    by (simp_all add: p c)
  with w ex_ctor c show ?thesis by blast
qed

section \<open>The upward pass\<close>

lemma node_ids_nodes: "map cl_nodeID (cl_nodes N) = node_ids N"
proof (induction N)
  case (Cluster i ty n idx m c lo hi e k cs)
  then have eq: "map (\<lambda>x. map cl_nodeID (cl_nodes x)) cs = map node_ids cs"
    by (intro map_cong refl) auto
  show ?case by (simp add: map_concat comp_def eq del: map_eq_conv)
qed

lemma sum_list_concat_map: "sum_list (concat xss) = sum_list (map sum_list (xss :: real list list))"
  by (induction xss) simp_all

lemma distinct_concat_member:
  "distinct (concat (map f cs)) \<Longrightarrow> x \<in> set cs \<Longrightarrow> distinct (f x)"
  by (induction cs) auto

lemma leaf_dot_Leaf: "leaf_dot v (Cluster i Leaf n idx m c lo hi e k cs) = m * v ! e"
  by (simp add: leaf_dot_def)

lemma leaf_dot_node:
  "ty \<noteq> Leaf \<Longrightarrow> leaf_dot v (Cluster i ty n idx m c lo hi e k cs) = sum_list (map (leaf_dot v) cs)"
  by (simp add: leaf_dot_def[abs_def] map_concat sum_list_concat_map comp_def)

lemma leaf_ids_node:
  "ty \<noteq> Leaf \<Longrightarrow> leaf_ids (Cluster i ty n idx m c lo hi e k cs) = concat (map leaf_ids cs)"
  by (simp add: leaf_ids_def[abs_def] map_concat comp_def)

lemma leaves_childless_node:
  "leaves_childless (Cluster i ty n idx m c lo hi e k cs) \<longleftrightarrow>
     (ty = Leaf \<longrightarrow> cs = []) \<and> (\<forall>x \<in> set cs. leaves_childless x)"
  by (auto simp: leaves_childless_def list_all_iff)

lemma wtDot_children:
  assumes each: "\<And>c st. c \<in> set cs \<Longrightarrow>
            \<exists>st'. percolateWtDot c v st = Inr st' \<and> wtDot_post v [c] st st'"
    and d: "distinct (concat (map node_ids cs))"
  shows "\<exists>st'. percolateWtDot_children cs v rs st =
            Inr (rs + sum_list (map (leaf_dot v) cs), st') \<and> wtDot_post v cs st st'"
  using each d
proof (induction cs arbitrary: rs st)
  case Nil
  then show ?case by (simp add: wtDot_post_def)
next
  case (Cons c cs)
  from Cons.prems(1)[of c st] obtain s1 where
    s1: "percolateWtDot c v st = Inr s1" "wtDot_post v [c] st s1" by auto
  have dr: "distinct (concat (map node_ids cs))" using Cons.prems(2) by simp
  have disj: "set (node_ids c) \<inter> set (concat (map node_ids cs)) = {}"
    using Cons.prems(2) by simp
  have "\<exists>st'. percolateWtDot_children cs v (rs + wtDot (s1 (cl_nodeID c))) s1 =
            Inr (rs + wtDot (s1 (cl_nodeID c)) + sum_list (map (leaf_dot v) cs), st') \<and>
            wtDot_post v cs s1 st'"
    by (rule Cons.IH[OF _ dr]) (use Cons.prems(1) in auto)
  then obtain s2 where
    s2: "percolateWtDot_children cs v (rs + wtDot (s1 (cl_nodeID c))) s1 =
            Inr (rs + wtDot (s1 (cl_nodeID c)) + sum_list (map (leaf_dot v) cs), s2)"
        "wtDot_post v cs s1 s2" by blast
  have cin: "c \<in> set (cl_nodes c)" by (cases c) simp
  have wc: "wtDot (s1 (cl_nodeID c)) = leaf_dot v c"
    using s1(2) cin by (simp add: wtDot_post_def)
  have run: "percolateWtDot_children (c # cs) v rs st =
      Inr (rs + sum_list (map (leaf_dot v) (c # cs)), s2)"
    using s1(1) s2(1) wc by (simp add: add.assoc)
  have post: "wtDot_post v (c # cs) st s2"
    unfolding wtDot_post_def
  proof (intro conjI allI impI ballI)
    fix j assume "j \<notin> set (concat (map node_ids (c # cs)))"
    then have "j \<notin> set (node_ids c)" "j \<notin> set (concat (map node_ids cs))" by simp_all
    then show "s2 j = st j" using s1(2) s2(2) by (simp add: wtDot_post_def)
  next
    fix j show "B (s2 j) = B (st j)" using s1(2) s2(2) by (simp add: wtDot_post_def)
  next
    fix M assume "M \<in> set (concat (map cl_nodes (c # cs)))"
    then consider "M \<in> set (cl_nodes c)" | "M \<in> set (concat (map cl_nodes cs))" by auto
    then show "wtDot (s2 (cl_nodeID M)) = leaf_dot v M"
    proof cases
      case 1
      then have "cl_nodeID M \<in> set (node_ids c)"
        unfolding node_ids_nodes[symmetric] by simp
      with disj have "cl_nodeID M \<notin> set (concat (map node_ids cs))" by blast
      then have "s2 (cl_nodeID M) = s1 (cl_nodeID M)" using s2(2) by (simp add: wtDot_post_def)
      moreover have "wtDot (s1 (cl_nodeID M)) = leaf_dot v M"
        using s1(2) 1 by (simp add: wtDot_post_def)
      ultimately show ?thesis by simp
    next
      case 2
      then show ?thesis using s2(2) unfolding wtDot_post_def by blast
    qed
  qed
  from run post show ?case by blast
qed

lemma percolateWtDot_correct:
  assumes "distinct (node_ids N)" "leaves_childless N" "\<forall>e \<in> set (leaf_ids N). e < length v"
  shows "\<exists>st'. percolateWtDot N v st = Inr st' \<and> wtDot_post v [N] st st'"
  using assms
proof (induction N arbitrary: st)
  case (Cluster i ty n idx m c lo hi e k cs)
  show ?case
  proof (cases "ty = Leaf")
    case True
    with Cluster.prems(2) have cs: "cs = []" by (simp add: leaves_childless_node)
    from True Cluster.prems(3) have e: "e < length v" by (simp add: leaf_ids_def)
    show ?thesis
      using True cs e
      by (simp add: vec_at_def wtDot_post_def leaf_dot_Leaf)
  next
    case False
    have d: "distinct (concat (map node_ids cs))" and ni: "i \<notin> set (concat (map node_ids cs))"
      using Cluster.prems(1) by simp_all
    have each: "\<exists>st'. percolateWtDot x v st = Inr st' \<and> wtDot_post v [x] st st'"
      if "x \<in> set cs" for x st
    proof (rule Cluster.IH[OF that])
      show "distinct (node_ids x)" using d that by (rule distinct_concat_member)
      show "leaves_childless x" using Cluster.prems(2) that by (simp add: leaves_childless_node)
      show "\<forall>e\<in>set (leaf_ids x). e < length v"
        using Cluster.prems(3) that False by (auto simp: leaf_ids_node)
    qed
    from wtDot_children[OF each d, of 0 st] obtain s1 where
      s1: "percolateWtDot_children cs v 0 st = Inr (0 + sum_list (map (leaf_dot v) cs), s1)"
          "wtDot_post v cs st s1" by blast
    let ?N = "Cluster i ty n idx m c lo hi e k cs"
    let ?s2 = "s1(i := (s1 i)\<lparr>wtDot := sum_list (map (leaf_dot v) cs)\<rparr>)"
    have run: "percolateWtDot ?N v st = Inr ?s2"
      using False s1(1) by simp
    have post: "wtDot_post v [?N] st ?s2"
      unfolding wtDot_post_def
    proof (intro conjI allI impI ballI)
      fix j assume "j \<notin> set (concat (map node_ids [?N]))"
      then have "j \<noteq> i" "j \<notin> set (concat (map node_ids cs))" by simp_all
      then show "?s2 j = st j" using s1(2) by (simp add: wtDot_post_def)
    next
      fix j show "B (?s2 j) = B (st j)" using s1(2) by (simp add: wtDot_post_def)
    next
      fix M assume "M \<in> set (concat (map cl_nodes [?N]))"
      then consider "M = ?N" | "M \<in> set (concat (map cl_nodes cs))" by auto
      then show "wtDot (?s2 (cl_nodeID M)) = leaf_dot v M"
      proof cases
        case 1
        then show ?thesis using False by (simp add: leaf_dot_node)
      next
        case 2
        then obtain x where x: "x \<in> set cs" "M \<in> set (cl_nodes x)" by auto
        then have "cl_nodeID M \<in> set (node_ids x)"
          unfolding node_ids_nodes[symmetric] by simp
        with x(1) have "cl_nodeID M \<in> set (concat (map node_ids cs))" by auto
        with ni have "cl_nodeID M \<noteq> i" by blast
        moreover have "wtDot (s1 (cl_nodeID M)) = leaf_dot v M"
          using s1(2) 2 unfolding wtDot_post_def by blast
        ultimately show ?thesis by simp
      qed
    qed
    from run post show ?thesis by blast
  qed
qed

section \<open>The downward pass\<close>

lemma leaf_list_ids: "(e, m) \<in> set (leaf_list N) \<Longrightarrow> e \<in> set (leaf_ids N)"
  unfolding leaf_ids_def by force

lemma self_node: "N \<in> set (cl_nodes N)"
  by (cases N) simp

lemma nodes_trans: "A \<in> set (cl_nodes N) \<Longrightarrow> M \<in> set (cl_nodes A) \<Longrightarrow> M \<in> set (cl_nodes N)"
proof (induction N)
  case (Cluster i ty n idx m c lo hi e k cs)
  show ?case
  proof (cases "A = Cluster i ty n idx m c lo hi e k cs")
    case True
    with Cluster.prems(2) show ?thesis by simp
  next
    case False
    with Cluster.prems(1) obtain x where x: "x \<in> set cs" "A \<in> set (cl_nodes x)" by auto
    from Cluster.IH[OF x(1) x(2) Cluster.prems(2)] x(1) show ?thesis by auto
  qed
qed

lemma child_node: "c \<in> set (cl_children A) \<Longrightarrow> c \<in> set (cl_nodes A)"
  by (cases A) (use self_node in auto)

lemma leaf_ids_sub:
  "A \<in> set (cl_nodes N) \<Longrightarrow> leaves_childless N \<Longrightarrow> set (leaf_ids A) \<subseteq> set (leaf_ids N)"
proof (induction N)
  case (Cluster i ty n idx m c lo hi e k cs)
  show ?case
  proof (cases "A = Cluster i ty n idx m c lo hi e k cs")
    case True
    then show ?thesis by simp
  next
    case False
    with Cluster.prems(1) obtain x where x: "x \<in> set cs" "A \<in> set (cl_nodes x)" by auto
    with Cluster.prems(2) have nl: "ty \<noteq> Leaf" and lx: "leaves_childless x"
      by (auto simp: leaves_childless_node)
    from Cluster.IH[OF x(1) x(2) lx] have "set (leaf_ids A) \<subseteq> set (leaf_ids x)" .
    with x(1) nl show ?thesis by (auto simp: leaf_ids_node)
  qed
qed

lemma path_B_node:
  "path_B Bm (Cluster i ty n idx m c lo hi e k cs) f =
     (if f \<in> set (leaf_ids (Cluster i ty n idx m c lo hi e k cs)) then Bm i else 0) +
     sum_list (map (\<lambda>x. path_B Bm x f) cs)"
  by (simp add: path_B_def[abs_def] map_concat sum_list_concat_map comp_def)

lemma path_B_outside:
  assumes "f \<notin> set (leaf_ids N)" "leaves_childless N"
  shows "path_B Bm N f = 0"
proof -
  have "\<forall>A \<in> set (cl_nodes N). f \<notin> set (leaf_ids A)"
    using leaf_ids_sub[OF _ assms(2)] assms(1) by blast
  then have "map (\<lambda>A. if f \<in> set (leaf_ids A) then Bm (cl_nodeID A) else 0) (cl_nodes N) =
             map (\<lambda>A. 0) (cl_nodes N)"
    by (intro map_cong refl) simp
  then show ?thesis unfolding path_B_def by (simp del: map_eq_conv)
qed

lemma sum_list_single:
  fixes g :: "'a \<Rightarrow> real"
  assumes "x \<in> set xs" "\<forall>y \<in> set xs. y \<noteq> x \<longrightarrow> g y = 0" "distinct xs"
  shows "sum_list (map g xs) = g x"
  using assms
proof (induction xs)
  case Nil
  then show ?case by simp
next
  case (Cons a xs)
  show ?case
  proof (cases "a = x")
    case True
    with Cons.prems have "x \<notin> set xs" by simp
    with Cons.prems(2) have "map g xs = map (\<lambda>y. 0) xs" by (intro map_cong refl) auto
    then have "sum_list (map g xs) = 0" by (simp del: map_eq_conv)
    with True show ?thesis by simp
  next
    case False
    with Cons.prems have "x \<in> set xs" "\<forall>y \<in> set xs. y \<noteq> x \<longrightarrow> g y = 0" "distinct xs" "g a = 0"
      by auto
    with Cons.IH show ?thesis by simp
  qed
qed


lemma path_B_children:
  assumes "distinct (concat (map leaf_ids cs))" "x \<in> set cs" "f \<in> set (leaf_ids x)"
    and "\<forall>c \<in> set cs. leaves_childless c"
  shows "sum_list (map (\<lambda>c. path_B Bm c f) cs) = path_B Bm x f"
  using assms
proof (induction cs)
  case Nil
  then show ?case by simp
next
  case (Cons a cs)
  have lc: "\<forall>c \<in> set cs. leaves_childless c" and la: "leaves_childless a"
    using Cons.prems(4) by simp_all
  have d: "distinct (concat (map leaf_ids cs))"
    and disj: "set (leaf_ids a) \<inter> set (concat (map leaf_ids cs)) = {}"
    using Cons.prems(1) by simp_all
  show ?case
  proof (cases "f \<in> set (leaf_ids a)")
    case True
    with disj have "\<forall>c \<in> set cs. f \<notin> set (leaf_ids c)" by auto
    with lc have "map (\<lambda>c. path_B Bm c f) cs = map (\<lambda>c. 0) cs"
      by (intro map_cong refl) (simp add: path_B_outside)
    then have z: "sum_list (map (\<lambda>c. path_B Bm c f) cs) = 0" by (simp del: map_eq_conv)
    from True Cons.prems(2,3) \<open>\<forall>c \<in> set cs. f \<notin> set (leaf_ids c)\<close> have "x = a" by auto
    with z show ?thesis by simp
  next
    case False
    with Cons.prems(2,3) have "x \<in> set cs" by auto
    from Cons.IH[OF d this Cons.prems(3) lc] path_B_outside[OF False la, of Bm]
    show ?thesis by simp
  qed
qed

lemma J_children:
  assumes each: "\<And>c pB st b. c \<in> set cs \<Longrightarrow> \<forall>j \<in> set (node_ids c). B (st j) = Bm j \<Longrightarrow>
            \<forall>e \<in> set (leaf_ids c). e < length b \<Longrightarrow>
            \<exists>st' b'. percolateJ c pB st b = Inr (st', b') \<and> J_post Bm [c] pB st b st' b'"
    and dn: "distinct (concat (map node_ids cs))"
    and dl: "distinct (concat (map leaf_ids cs))"
    and ni: "i \<notin> set (concat (map node_ids cs))"
    and Bm: "\<forall>j \<in> set (concat (map node_ids cs)). B (st j) = Bm j"
    and rng: "\<forall>e \<in> set (concat (map leaf_ids cs)). e < length b"
  shows "\<exists>st' b'. percolateJ_children i cs st b = Inr (st', b') \<and>
           J_post Bm cs (B (st i)) st b st' b'"
  using each dn dl ni Bm rng
proof (induction cs arbitrary: st b)
  case Nil
  then show ?case by (simp add: J_post_def)
next
  case (Cons c cs)
  have dn': "distinct (concat (map node_ids cs))"
    and nd: "set (node_ids c) \<inter> set (concat (map node_ids cs)) = {}"
    and dl': "distinct (concat (map leaf_ids cs))"
    and ld: "set (leaf_ids c) \<inter> set (concat (map leaf_ids cs)) = {}"
    and ni': "i \<notin> set (concat (map node_ids cs))" and nic: "i \<notin> set (node_ids c)"
    using Cons.prems(2,3,4) by simp_all
  have "\<exists>st' b'. percolateJ c (B (st i)) st b = Inr (st', b') \<and>
          J_post Bm [c] (B (st i)) st b st' b'"
    by (rule Cons.prems(1)) (use Cons.prems(5,6) in simp_all)
  then obtain s1 b1 where r1: "percolateJ c (B (st i)) st b = Inr (s1, b1)"
    and p1: "J_post Bm [c] (B (st i)) st b s1 b1" by blast
  from p1 have len1: "length b1 = length b"
    and fr1: "\<And>j. j \<notin> set (node_ids c) \<Longrightarrow> s1 j = st j"
    and un1: "\<And>e. e \<notin> set (leaf_ids c) \<Longrightarrow> b1 ! e = b ! e"
    and lf1: "\<And>e m. (e, m) \<in> set (leaf_list c) \<Longrightarrow> b1 ! e = m * (B (st i) + path_B Bm c e)"
    unfolding J_post_def by auto
  have Bi: "B (s1 i) = B (st i)" using fr1[OF nic] by simp
  have Bm1: "\<forall>j \<in> set (concat (map node_ids cs)). B (s1 j) = Bm j"
  proof
    fix j assume j: "j \<in> set (concat (map node_ids cs))"
    with nd have "j \<notin> set (node_ids c)" by blast
    from fr1[OF this] Cons.prems(5) j show "B (s1 j) = Bm j" by simp
  qed
  have rng1: "\<forall>e \<in> set (concat (map leaf_ids cs)). e < length b1"
    using Cons.prems(6) len1 by simp
  have "\<exists>st' b'. percolateJ_children i cs s1 b1 = Inr (st', b') \<and>
          J_post Bm cs (B (s1 i)) s1 b1 st' b'"
    by (rule Cons.IH[OF _ dn' dl' ni' Bm1 rng1]) (use Cons.prems(1) in auto)
  then obtain s2 b2 where r2: "percolateJ_children i cs s1 b1 = Inr (s2, b2)"
    and p2: "J_post Bm cs (B (st i)) s1 b1 s2 b2" unfolding Bi by blast
  from p2 have len2: "length b2 = length b1"
    and fr2: "\<And>j. j \<notin> set (concat (map node_ids cs)) \<Longrightarrow> s2 j = s1 j"
    and un2: "\<And>e. e \<notin> set (concat (map leaf_ids cs)) \<Longrightarrow> b2 ! e = b1 ! e"
    and lf2: "\<And>N e m. N \<in> set cs \<Longrightarrow> (e, m) \<in> set (leaf_list N) \<Longrightarrow>
                b2 ! e = m * (B (st i) + path_B Bm N e)"
    unfolding J_post_def by auto
  have run: "percolateJ_children i (c # cs) st b = Inr (s2, b2)"
    using r1 r2 by simp
  have post: "J_post Bm (c # cs) (B (st i)) st b s2 b2"
    unfolding J_post_def
  proof (intro conjI allI impI ballI)
    show "length b2 = length b" using len1 len2 by simp
  next
    fix j assume "j \<notin> set (concat (map node_ids (c # cs)))"
    then have "j \<notin> set (node_ids c)" "j \<notin> set (concat (map node_ids cs))" by simp_all
    then show "s2 j = st j" using fr1 fr2 by simp
  next
    fix e assume "e \<notin> set (concat (map leaf_ids (c # cs)))"
    then have "e \<notin> set (leaf_ids c)" "e \<notin> set (concat (map leaf_ids cs))" by simp_all
    then show "b2 ! e = b ! e" using un1 un2 by simp
  next
    fix N x assume N: "N \<in> set (c # cs)" and x: "x \<in> set (leaf_list N)"
    obtain e m where em: "x = (e, m)" by (cases x)
    have "b2 ! e = m * (B (st i) + path_B Bm N e)"
    proof (cases "N \<in> set cs")
      case True
      from lf2[OF True] x em show ?thesis by simp
    next
      case False
      with N have Nc: "N = c" by simp
      from x em Nc have "e \<in> set (leaf_ids c)" by (simp add: leaf_list_ids)
      with ld have "e \<notin> set (concat (map leaf_ids cs))" by blast
      from un2[OF this] lf1[of e m] x em Nc show ?thesis by simp
    qed
    then show "case x of (e, m) \<Rightarrow> b2 ! e = m * (B (st i) + path_B Bm N e)"
      by (simp add: em)
  qed
  from run post show ?case by blast
qed


lemma percolateJ_correct:
  assumes "distinct (node_ids N)" "leaves_childless N" "distinct (leaf_ids N)"
    and "\<forall>j \<in> set (node_ids N). B (st j) = Bm j"
    and "\<forall>e \<in> set (leaf_ids N). e < length b"
  shows "\<exists>st' b'. percolateJ N pB st b = Inr (st', b') \<and> J_post Bm [N] pB st b st' b'"
  using assms
proof (induction N arbitrary: pB st b)
  case (Cluster i ty n idx m c lo hi e k cs)
  let ?N = "Cluster i ty n idx m c lo hi e k cs"
  let ?st1 = "st(i := (st i)\<lparr>B := B (st i) + pB\<rparr>)"
  have Bi: "B (?st1 i) = Bm i + pB" using Cluster.prems(4) by simp
  show ?case
  proof (cases "ty = Leaf")
    case True
    with Cluster.prems(2) have cs: "cs = []" by (simp add: leaves_childless_node)
    from True Cluster.prems(5) have e: "e < length b" by (simp add: leaf_ids_def)
    have li: "leaf_ids ?N = [e]" "leaf_list ?N = [(e, m)]" using True by (simp_all add: leaf_ids_def)
    have pb: "path_B Bm ?N e = Bm i" using li(1) by (simp add: path_B_node cs)
    have run: "percolateJ ?N pB st b = Inr (?st1, b[e := m * (Bm i + pB)])"
      using True cs e Cluster.prems(4) by (simp add: Let_def)
    have post: "J_post Bm [?N] pB st b ?st1 (b[e := m * (Bm i + pB)])"
      unfolding J_post_def
    proof (intro conjI allI impI ballI)
      show "length (b[e := m * (Bm i + pB)]) = length b" by simp
    next
      fix j assume "j \<notin> set (concat (map node_ids [?N]))"
      then show "?st1 j = st j" by simp
    next
      fix f assume "f \<notin> set (concat (map leaf_ids [?N]))"
      then have "f \<noteq> e" using li(1) by simp
      then show "b[e := m * (Bm i + pB)] ! f = b ! f" by simp
    next
      fix M y assume "M \<in> set [?N]" and "y \<in> set (leaf_list M)"
      then have M: "M = ?N" and y: "y = (e, m)" using li(2) by simp_all
      have "b[e := m * (Bm i + pB)] ! e = m * (pB + path_B Bm ?N e)"
        using e by (simp add: pb add.commute)
      then show "case y of (f, w) \<Rightarrow> b[e := m * (Bm i + pB)] ! f = w * (pB + path_B Bm M f)"
        unfolding M y by simp
    qed
    from run post show ?thesis by blast
  next
    case False
    have dn: "distinct (concat (map node_ids cs))" and ni: "i \<notin> set (concat (map node_ids cs))"
      using Cluster.prems(1) by simp_all
    have lids: "leaf_ids ?N = concat (map leaf_ids cs)" using False by (rule leaf_ids_node)
    have dl: "distinct (concat (map leaf_ids cs))" using Cluster.prems(3) unfolding lids .
    have lc: "\<forall>x \<in> set cs. leaves_childless x"
      using Cluster.prems(2) by (simp add: leaves_childless_node)
    have each: "\<exists>st' b'. percolateJ x pB st b = Inr (st', b') \<and> J_post Bm [x] pB st b st' b'"
      if "x \<in> set cs" "\<forall>j \<in> set (node_ids x). B (st j) = Bm j"
         "\<forall>e \<in> set (leaf_ids x). e < length b" for x pB st b
    proof (rule Cluster.IH[OF that(1) _ _ _ that(2,3)])
      show "distinct (node_ids x)" using dn that(1) by (rule distinct_concat_member)
      show "leaves_childless x" using lc that(1) by simp
      show "distinct (leaf_ids x)" using dl that(1) by (rule distinct_concat_member)
    qed
    have Bm1: "\<forall>j \<in> set (concat (map node_ids cs)). B (?st1 j) = Bm j"
    proof
      fix j assume j: "j \<in> set (concat (map node_ids cs))"
      with ni have "j \<noteq> i" by blast
      moreover from j have jn: "j \<in> set (node_ids ?N)" by simp
      moreover have "B (st j) = Bm j" using Cluster.prems(4) jn by blast
      ultimately show "B (?st1 j) = Bm j" by simp
    qed
    have rng: "\<forall>e \<in> set (concat (map leaf_ids cs)). e < length b"
      using Cluster.prems(5) unfolding lids .
    from J_children[of cs Bm i ?st1 b, OF each dn dl ni Bm1 rng] obtain s2 b2 where
      r2: "percolateJ_children i cs ?st1 b = Inr (s2, b2)"
      and p2: "J_post Bm cs (Bm i + pB) ?st1 b s2 b2" unfolding Bi by blast
    from p2 have len2: "length b2 = length b"
      and fr2: "\<And>j. j \<notin> set (concat (map node_ids cs)) \<Longrightarrow> s2 j = ?st1 j"
      and un2: "\<And>e. e \<notin> set (concat (map leaf_ids cs)) \<Longrightarrow> b2 ! e = b ! e"
      and lf2: "\<And>x e m. x \<in> set cs \<Longrightarrow> (e, m) \<in> set (leaf_list x) \<Longrightarrow>
                  b2 ! e = m * (Bm i + pB + path_B Bm x e)"
      unfolding J_post_def by auto
    have run: "percolateJ ?N pB st b = Inr (s2, b2)"
      using False r2 by (simp add: Let_def)
    have post: "J_post Bm [?N] pB st b s2 b2"
      unfolding J_post_def
    proof (intro conjI allI impI ballI)
      show "length b2 = length b" by (rule len2)
    next
      fix j assume "j \<notin> set (concat (map node_ids [?N]))"
      then have "j \<noteq> i" "j \<notin> set (concat (map node_ids cs))" by simp_all
      then show "s2 j = st j" using fr2 by simp
    next
      fix f assume "f \<notin> set (concat (map leaf_ids [?N]))"
      then have "f \<notin> set (concat (map leaf_ids cs))" by (simp add: lids)
      then show "b2 ! f = b ! f" by (rule un2)
    next
      fix M y assume M: "M \<in> set [?N]" and y: "y \<in> set (leaf_list M)"
      obtain f w where fw: "y = (f, w)" by (cases y)
      from M y fw False obtain x where x: "x \<in> set cs" "(f, w) \<in> set (leaf_list x)" by auto
      from x(2) have fx: "f \<in> set (leaf_ids x)" by (rule leaf_list_ids)
      with x(1) have fN: "f \<in> set (leaf_ids ?N)" unfolding lids by auto
      have "path_B Bm ?N f = Bm i + path_B Bm x f"
        unfolding path_B_node using fN path_B_children[OF dl x(1) fx lc, of Bm] by simp
      with lf2[OF x] M have "b2 ! f = w * (pB + path_B Bm M f)" by (simp add: algebra_simps)
      then show "case y of (e, m) \<Rightarrow> b2 ! e = m * (pB + path_B Bm M e)" by (simp add: fw)
    qed
    from run post show ?thesis by blast
  qed
qed

section \<open>The pairs of the build loop are nodes of the hierarchy\<close>

lemma child_pairs_in:
  assumes "pair_in N p" "q \<in> set (child_pairs p)"
  shows "pair_in N q"
proof -
  from assms(2) obtain ci cj where q: "q = \<lparr>cluster1 = ci, cluster2 = cj\<rparr>"
    and ci: "ci \<in> set (take 2 (cl_children (cluster1 p)))"
    and cj: "cj \<in> set (take 2 (cl_children (cluster2 p)))"
    unfolding child_pairs_def by auto
  from ci have "ci \<in> set (cl_children (cluster1 p))" by (rule in_set_takeD)
  then have 1: "ci \<in> set (cl_nodes N)"
    using assms(1) by (metis child_node nodes_trans pair_in_def)
  from cj have "cj \<in> set (cl_children (cluster2 p))" by (rule in_set_takeD)
  then have 2: "cj \<in> set (cl_nodes N)"
    using assms(1) by (metis child_node nodes_trans pair_in_def)
  from 1 2 show ?thesis by (simp add: pair_in_def q)
qed

lemma BCT_resolve_in:
  assumes "BCT_resolve contains t = Inr r"
    and "list_all (pair_in N) (unresolvedPairs t)" "list_all (pair_in N) (admissiblePairs t)"
  shows "list_all (pair_in N) (admissiblePairs r) \<and> tree_root r = tree_root t \<and>
         exp_s r = exp_s t"
  using assms
proof (induction contains t rule: BCT_resolve.induct)
  case (1 contains t)
  show ?case
  proof (cases "unresolvedPairs t = []")
    case True
    with "1.prems" show ?thesis by (simp add: BCT_resolve.simps)
  next
    case False
    with "1.prems"(1) obtain t' where sp: "splitInadmissibleNodes contains t = Inr t'"
      and r: "BCT_resolve contains t' = Inr r"
      by (subst (asm) BCT_resolve.simps) (auto split: sum.splits)
    from sp obtain i' a' n' where
      l: "split_loop contains (separationCoeff t) (unresolvedPairs t)
            (inadmissiblePairs t, admissiblePairs t, []) = Inr (i', a', n')"
      and t': "t' = t\<lparr>inadmissiblePairs := i', admissiblePairs := a', unresolvedPairs := n'\<rparr>"
      by (auto simp: splitInadmissibleNodes_def split: sum.splits)
    note res = split_loop_result[OF l]
    have a: "list_all (pair_in N) (admissiblePairs t')"
      using res "1.prems"(2,3) by (auto simp: t' list_all_iff)
    have u: "list_all (pair_in N) (unresolvedPairs t')"
      unfolding list_all_iff
    proof
      fix q assume "q \<in> set (unresolvedPairs t')"
      then obtain p where p: "p \<in> set (unresolvedPairs t)" "q \<in> set (child_pairs p)"
        using res by (auto simp: t')
      from p(1) "1.prems"(2) have "pair_in N p" by (simp add: list_all_iff)
      then show "pair_in N q" using p(2) by (rule child_pairs_in)
    qed
    from "1.IH"[OF False sp r u a] show ?thesis by (simp add: t')
  qed
qed

section \<open>The accumulators of the admissible pairs\<close>

lemma add_pair_B_wtDot: "wtDot (add_pair_B kern s p st j) = wtDot (st j)"
  by (simp add: add_pair_B_def Let_def)

lemma fold_add_pair_wtDot: "wtDot (fold (add_pair_B kern s) ps st j) = wtDot (st j)"
  by (induction ps arbitrary: st) (simp_all add: add_pair_B_wtDot)

lemma fold_add_pair_B:
  "B (fold (add_pair_B kern s) ps st i) =
     B (st i) +
     sum_list (map (\<lambda>p. if cl_nodeID (cluster1 p) = i
                         then kern s (cl_centerOfMass (cluster1 p)) (cl_centerOfMass (cluster2 p)) *
                              wtDot (st (cl_nodeID (cluster2 p)))
                         else 0) ps)"
proof (induction ps arbitrary: st)
  case Nil
  then show ?case by simp
next
  case (Cons p ps)
  have "B (add_pair_B kern s p st i) =
          B (st i) + (if cl_nodeID (cluster1 p) = i
                      then kern s (cl_centerOfMass (cluster1 p)) (cl_centerOfMass (cluster2 p)) *
                           wtDot (st (cl_nodeID (cluster2 p)))
                      else 0)"
    by (simp add: add_pair_B_def Let_def)
  then show ?case
    by (simp add: Cons.IH add_pair_B_wtDot cong: if_cong)
qed

lemma mset_concat_update:
  "i < length bs \<Longrightarrow> mset (concat (bs[i := bs ! i @ [p]])) = mset (concat bs) + {#p#}"
proof (induction bs arbitrary: i)
  case Nil
  then show ?case by simp
next
  case (Cons a bs)
  then show ?case by (cases i) simp_all
qed

lemma bucket_pairs_mset:
  "bucket_pairs ps bs = Inr bs' \<Longrightarrow> mset (concat bs') = mset (concat bs) + mset ps"
proof (induction ps arbitrary: bs)
  case Nil
  then show ?case by simp
next
  case (Cons p ps)
  let ?i = "cl_nodeID (cluster1 p)"
  from Cons.prems have i: "?i < length bs"
    and r: "bucket_pairs ps (bs[?i := bs ! ?i @ [p]]) = Inr bs'"
    by (simp_all add: Let_def split: if_splits)
  from Cons.IH[OF r] mset_concat_update[OF i, of p] show ?case by simp
qed

lemma sum_list_mset_cong:
  fixes f :: "'a \<Rightarrow> real"
  assumes "mset xs = mset ys"
  shows "sum_list (map f xs) = sum_list (map f ys)"
proof -
  have "sum_list (map f xs) = sum_mset (image_mset f (mset xs))"
    by (metis mset_map sum_mset_sum_list)
  also have "\<dots> = sum_mset (image_mset f (mset ys))" using assms by simp
  also have "\<dots> = sum_list (map f ys)" by (metis mset_map sum_mset_sum_list)
  finally show ?thesis .
qed

section \<open>From the accumulators to the rows\<close>

lemma path_B_add: "path_B (\<lambda>i. g i + h i) N e = path_B g N e + path_B h N e"
proof -
  have "sum_list (map (\<lambda>A. (if e \<in> set (leaf_ids A) then g (cl_nodeID A) else 0) +
                          (if e \<in> set (leaf_ids A) then h (cl_nodeID A) else 0)) xs) =
        sum_list (map (\<lambda>A. if e \<in> set (leaf_ids A) then g (cl_nodeID A) else 0) xs) +
        sum_list (map (\<lambda>A. if e \<in> set (leaf_ids A) then h (cl_nodeID A) else 0) xs)"
    for xs :: "Cluster list"
    by (induction xs) simp_all
  moreover have "(\<lambda>A. if e \<in> set (leaf_ids A) then g (cl_nodeID A) + h (cl_nodeID A) else 0) =
       (\<lambda>A. (if e \<in> set (leaf_ids A) then g (cl_nodeID A) else 0) +
            (if e \<in> set (leaf_ids A) then h (cl_nodeID A) else 0))"
    by auto
  ultimately show ?thesis unfolding path_B_def by simp
qed

lemma path_B_zero: "path_B (\<lambda>i. 0) N e = 0"
  unfolding path_B_def by (induction "cl_nodes N") simp_all

lemma path_B_one_pair:
  assumes "distinct (node_ids N)" "I \<in> set (cl_nodes N)"
  shows "path_B (\<lambda>i. if cl_nodeID I = i then x else 0) N e =
           (if e \<in> set (leaf_ids I) then x else 0)"
proof -
  from assms(1) have d: "distinct (cl_nodes N)" and inj: "inj_on cl_nodeID (set (cl_nodes N))"
    unfolding node_ids_nodes[symmetric] by (simp_all add: distinct_map)
  let ?g = "\<lambda>A. if e \<in> set (leaf_ids A) then (if cl_nodeID I = cl_nodeID A then x else 0) else 0"
  have z: "\<forall>A \<in> set (cl_nodes N). A \<noteq> I \<longrightarrow> ?g A = 0"
    using inj assms(2) by (auto dest: inj_onD)
  from sum_list_single[OF assms(2) z d] show ?thesis unfolding path_B_def by simp
qed

lemma path_B_swap:
  assumes "distinct (node_ids N)" "list_all (pair_in N) ps"
  shows "path_B (\<lambda>i. sum_list (map (\<lambda>p. if cl_nodeID (cluster1 p) = i then w p else 0) ps)) N e =
         sum_list (map (\<lambda>p. if e \<in> set (leaf_ids (cluster1 p)) then w p else 0) ps)"
  using assms(2)
proof (induction ps)
  case Nil
  then show ?case by (simp add: path_B_zero)
next
  case (Cons p ps)
  from Cons.prems have ps: "list_all (pair_in N) ps" and "pair_in N p" by simp_all
  then have p: "cluster1 p \<in> set (cl_nodes N)" by (simp add: pair_in_def)
  show ?case
    by (simp add: path_B_add path_B_one_pair[OF assms(1) p] Cons.IH[OF ps])
qed


section \<open>The percolated product\<close>

lemma leaf_dot_ones:
  assumes "\<forall>e \<in> set (leaf_ids M). e < F"
  shows "leaf_dot (replicate F 1) M = leaf_mass_sum M"
proof -
  have "map (\<lambda>(e, m). m * replicate F (1::real) ! e) (leaf_list M) = map snd (leaf_list M)"
  proof (intro map_cong refl)
    fix x assume x: "x \<in> set (leaf_list M)"
    obtain e m where em: "x = (e, m)" by (cases x)
    with x assms have "e < F" by (auto dest: leaf_list_ids)
    then show "(case x of (e, m) \<Rightarrow> m * replicate F (1::real) ! e) = snd x" by (simp add: em)
  qed
  then show ?thesis unfolding leaf_dot_def leaf_mass_sum_def by (simp del: map_eq_conv)
qed

lemma MultiplyAfPercolated_result:
  assumes wf: "perc_wf (tree_root t) (length v)"
    and pin: "list_all (pair_in (tree_root t)) (concat (admissibleByCluster t))"
    and len: "length b = length v"
  shows "\<exists>b'. MultiplyAfPercolated kern t v b = Inr b' \<and> length b' = length v \<and>
           (\<forall>(e, m) \<in> set (leaf_list (tree_root t)).
              b' ! e = m * percolated_row kern (exp_s t) (leaf_dot v)
                             (concat (admissibleByCluster t)) e)"
proof -
  let ?R = "tree_root t"
  let ?P = "concat (admissibleByCluster t)"
  let ?k = "\<lambda>p. kern (exp_s t) (cl_centerOfMass (cluster1 p)) (cl_centerOfMass (cluster2 p))"
  from wf have dn: "distinct (node_ids ?R)" and lc: "leaves_childless ?R"
    and dl: "distinct (leaf_ids ?R)" and rng: "\<forall>e \<in> set (leaf_ids ?R). e < length v"
    by (simp_all add: perc_wf_def list_all_iff)
  from percolateWtDot_correct[OF dn lc rng, of CreateDataTree] obtain st1 where
    r1: "percolateWtDot ?R v CreateDataTree = Inr st1"
    and p1: "wtDot_post v [?R] CreateDataTree st1" by blast
  from p1 have B1: "\<And>j. B (st1 j) = 0"
    and w1: "\<And>M. M \<in> set (cl_nodes ?R) \<Longrightarrow> wtDot (st1 (cl_nodeID M)) = leaf_dot v M"
    unfolding wtDot_post_def by (simp_all add: CreateDataTree_def)
  define st2 where "st2 = fold (add_pair_B kern (exp_s t)) ?P st1"
  define Bm where
    "Bm = (\<lambda>i. sum_list (map (\<lambda>p. if cl_nodeID (cluster1 p) = i
                                     then ?k p * leaf_dot v (cluster2 p) else 0) ?P))"
  have "map (\<lambda>p. if cl_nodeID (cluster1 p) = i
                  then ?k p * wtDot (st1 (cl_nodeID (cluster2 p))) else 0) ?P =
        map (\<lambda>p. if cl_nodeID (cluster1 p) = i then ?k p * leaf_dot v (cluster2 p) else 0) ?P"
    for i
  proof (intro map_cong refl)
    fix p assume "p \<in> set ?P"
    with pin have "pair_in ?R p" unfolding list_all_iff by blast
    then have "cluster2 p \<in> set (cl_nodes ?R)" by (simp add: pair_in_def)
    from w1[OF this]
    show "(if cl_nodeID (cluster1 p) = i
           then ?k p * wtDot (st1 (cl_nodeID (cluster2 p))) else 0) =
          (if cl_nodeID (cluster1 p) = i then ?k p * leaf_dot v (cluster2 p) else 0)"
      by simp
  qed
  then have B2: "B (st2 i) = Bm i" for i
    unfolding st2_def Bm_def fold_add_pair_B B1 by (simp del: map_eq_conv)
  have rngb: "\<forall>e \<in> set (leaf_ids ?R). e < length b" using rng len by simp
  from percolateJ_correct[OF dn lc dl _ rngb, of st2 Bm 0] B2 obtain st3 b' where
    r3: "percolateJ ?R 0 st2 b = Inr (st3, b')" and p3: "J_post Bm [?R] 0 st2 b st3 b'"
    by blast
  have run: "MultiplyAfPercolated kern t v b = Inr b'"
    using r1 r3 by (simp add: MultiplyAfPercolated_def st2_def)
  from p3 have l3: "length b' = length b"
    and e3: "\<And>e m. (e, m) \<in> set (leaf_list ?R) \<Longrightarrow> b' ! e = m * (0 + path_B Bm ?R e)"
    unfolding J_post_def by auto
  have sw: "path_B Bm ?R e =
            percolated_row kern (exp_s t) (leaf_dot v) ?P e" for e
    unfolding Bm_def percolated_row_def
    by (rule path_B_swap[OF dn pin, where w = "\<lambda>p. ?k p * leaf_dot v (cluster2 p)"])
  have "\<forall>(e, m) \<in> set (leaf_list ?R).
          b' ! e = m * percolated_row kern (exp_s t) (leaf_dot v) ?P e"
    using e3 sw by auto
  with run l3 len show ?thesis by simp
qed

lemma ctor_parts:
  assumes "BlockClusterTree_ctor contains kern bvh_root sepCoeff s = Inr t"
  shows "\<exists>r bk b. BCT_resolve contains
               \<lparr>tree_root = bvh_root, separationCoeff = sepCoeff, exp_s = s,
                admissiblePairs = [], inadmissiblePairs = [],
                unresolvedPairs = [\<lparr>cluster1 = bvh_root, cluster2 = bvh_root\<rparr>],
                admissibleByCluster = [], Af_1 = []\<rparr> = Inr r \<and>
             bucket_pairs (admissiblePairs r)
               (replicate (cl_numNodesInBranch (tree_root r)) []) = Inr bk \<and>
             MultiplyAfPercolated kern (r\<lparr>admissibleByCluster := bk\<rparr>)
               (replicate (nElements (tree_root r)) 1) (replicate (nElements (tree_root r)) 1) =
               Inr b \<and>
             t = r\<lparr>admissibleByCluster := bk, Af_1 := b\<rparr>"
  using assms
  by (auto simp: BlockClusterTree_ctor_def OrganizePairsByFirst_def PremultiplyAf1_def Let_def
      split: sum.splits)

lemma Af_1_rows:
  assumes wf: "perc_wf bvh_root (nElements bvh_root)"
    and c: "BlockClusterTree_ctor contains kern bvh_root sepCoeff s = Inr t"
  shows "length (Af_1 t) = nElements bvh_root"
    and "(e, m) \<in> set (leaf_list bvh_root) \<Longrightarrow>
         Af_1 t ! e = m * percolated_row kern s leaf_mass_sum (admissiblePairs t) e"
proof -
  let ?F = "nElements bvh_root"
  let ?t0 = "\<lparr>tree_root = bvh_root, separationCoeff = sepCoeff, exp_s = s,
                admissiblePairs = [], inadmissiblePairs = [],
                unresolvedPairs = [\<lparr>cluster1 = bvh_root, cluster2 = bvh_root\<rparr>],
                admissibleByCluster = [], Af_1 = []\<rparr>"
  from ctor_parts[OF c] obtain r bk b where
    r: "BCT_resolve contains ?t0 = Inr r"
    and bk: "bucket_pairs (admissiblePairs r)
               (replicate (cl_numNodesInBranch (tree_root r)) []) = Inr bk"
    and b: "MultiplyAfPercolated kern (r\<lparr>admissibleByCluster := bk\<rparr>)
               (replicate (nElements (tree_root r)) 1) (replicate (nElements (tree_root r)) 1) =
               Inr b"
    and t: "t = r\<lparr>admissibleByCluster := bk, Af_1 := b\<rparr>" by blast
  have "list_all (pair_in bvh_root) (unresolvedPairs ?t0)"
    by (simp add: pair_in_def self_node)
  from BCT_resolve_in[OF r this]
  have ain: "list_all (pair_in bvh_root) (admissiblePairs r)"
    and root: "tree_root r = bvh_root" and es: "exp_s r = s" by simp_all
  from bucket_pairs_mset[OF bk] have ms: "mset (concat bk) = mset (admissiblePairs r)"
    by simp
  then have "set (concat bk) = set (admissiblePairs r)" by (rule mset_eq_setD)
  with ain have pin: "list_all (pair_in bvh_root) (concat bk)" by (simp add: list_all_iff)
  let ?t2 = "r\<lparr>admissibleByCluster := bk\<rparr>"
  let ?ones = "replicate ?F (1::real)"
  have "\<exists>b'. MultiplyAfPercolated kern ?t2 ?ones ?ones = Inr b' \<and> length b' = length ?ones \<and>
           (\<forall>(e, m) \<in> set (leaf_list (tree_root ?t2)).
              b' ! e = m * percolated_row kern (exp_s ?t2) (leaf_dot ?ones)
                             (concat (admissibleByCluster ?t2)) e)"
    by (rule MultiplyAfPercolated_result) (use wf pin root in simp_all)
  with b root es have lb: "length b = ?F"
    and eb: "\<And>e m. (e, m) \<in> set (leaf_list bvh_root) \<Longrightarrow>
               b ! e = m * percolated_row kern s (leaf_dot ?ones) (concat bk) e"
    by auto
  show "length (Af_1 t) = nElements bvh_root" using lb by (simp add: t)
  from wf have lc: "leaves_childless bvh_root"
    and rng: "\<forall>e \<in> set (leaf_ids bvh_root). e < ?F"
    by (simp_all add: perc_wf_def list_all_iff)
  have ones: "leaf_dot ?ones (cluster2 p) = leaf_mass_sum (cluster2 p)"
    if "p \<in> set (admissiblePairs r)" for p
  proof (rule leaf_dot_ones)
    from that ain have "pair_in bvh_root p" unfolding list_all_iff by blast
    then have "cluster2 p \<in> set (cl_nodes bvh_root)" by (simp add: pair_in_def)
    from leaf_ids_sub[OF this lc] rng show "\<forall>e \<in> set (leaf_ids (cluster2 p)). e < ?F" by blast
  qed
  have row: "percolated_row kern s (leaf_dot ?ones) (concat bk) e =
             percolated_row kern s leaf_mass_sum (admissiblePairs r) e" for e
  proof -
    have "percolated_row kern s (leaf_dot ?ones) (concat bk) e =
          percolated_row kern s (leaf_dot ?ones) (admissiblePairs r) e"
      unfolding percolated_row_def by (rule sum_list_mset_cong[OF ms])
    also have "\<dots> = percolated_row kern s leaf_mass_sum (admissiblePairs r) e"
      unfolding percolated_row_def
      by (rule arg_cong[where f = sum_list], intro map_cong refl) (simp add: ones)
    finally show ?thesis .
  qed
  show "Af_1 t ! e = m * percolated_row kern s leaf_mass_sum (admissiblePairs t) e"
    if "(e, m) \<in> set (leaf_list bvh_root)"
    using eb[OF that] row by (simp add: t)
qed

section \<open>The claim about the diagonal correction\<close>

lemma ex_kappa_value: "ex_kappa = 16 / 1997 ^ 4"
  by (simp add: ex_kappa_def MetricDistanceTermFrac_def v_sub_def v_norm_x power_divide)

lemma ex_perc_wf: "perc_wf ex_root (nElements ex_root)"
  by (simp add: perc_wf_def leaves_childless_def leaf_ids_def ex_root_def ex_L_def ex_LL_def
      ex_LR_def ex_R_def leaf_cluster_def)

text \<open>
  C3 as stated does not hold.  On the hierarchy over five faces of area 1, the constructor
  leaves \<open>Af_1 = [\<kappa>, \<kappa>, \<kappa>, \<kappa>, 4 \<kappa>]\<close> with \<open>\<kappa> = 16 / 1997\<^sup>4\<close>, the kernel at the centres of
  mass of the one admissible pair.  The operator of the specification applied to the
  vector of ones is 0 in every entry, because every term has the factor \<open>1 - 1\<close>; and the
  row sum of the kernel over all other faces, which the diagonal of the form
  \<open>2 (diag v - A' v)\<close> would need, is above 1 at face 0.
\<close>

theorem C3_counterexample:
  "BlockClusterTree_ctor boxContainsPoint MetricDistanceTermFrac ex_root (1 / 4) 1 = Inr ex_bct \<and>
   length (Af_1 ex_bct) = 5 \<and>
   Af_1 ex_bct ! 0 = 16 / 1997 ^ 4 \<and>
   A_entry ex_areas ex_barycenters MetricDistanceTermFrac 1 (replicate 5 1) [0, 1, 2, 3, 4] 0 = 0 \<and>
   Af_1 ex_bct ! 0 \<noteq>
     A_entry ex_areas ex_barycenters MetricDistanceTermFrac 1 (replicate 5 1) [0, 1, 2, 3, 4] 0 \<and>
   1 < A_row_sum ex_areas ex_barycenters MetricDistanceTermFrac 1 [0, 1, 2, 3, 4] 0 \<and>
   Af_1 ex_bct ! 0 < 1"
proof -
  have a: "Af_1 ex_bct ! 0 = 16 / 1997 ^ 4" "length (Af_1 ex_bct) = 5"
    by (simp_all add: ex_bct_def ex_kappa_value)
  have z: "A_entry ex_areas ex_barycenters MetricDistanceTermFrac 1 (replicate 5 1)
             [0, 1, 2, 3, 4] 0 = 0"
    by (simp add: A_entry_def)
  have r: "1 < A_row_sum ex_areas ex_barycenters MetricDistanceTermFrac 1 [0, 1, 2, 3, 4] 0"
    by (simp add: A_row_sum_def ex_areas_def ex_barycenters_def MetricDistanceTermFrac_def
        v_sub_def v_norm_x)
  have "Af_1 ex_bct ! 0 \<noteq> 0" "Af_1 ex_bct ! 0 < 1" unfolding a by simp_all
  with ex_ctor a z r show ?thesis by simp
qed

text \<open>
  C3 (amended): after the construction over a hierarchy with distinct node IDs, childless
  leaves and distinct face indices below \<open>F = nElements\<close> of the root, \<open>Af_1\<close> has length
  \<open>F\<close>, and its entry for the leaf of face \<open>e\<close> with area \<open>m\<close> is \<open>m\<close> times the sum, over the
  admissible pairs \<open>(I, J)\<close> with that leaf below \<open>I\<close>, of the kernel at the centres of mass
  of \<open>I\<close> and \<open>J\<close> times the sum of the areas of the leaves below \<open>J\<close>.
\<close>

theorem C3_Af1_percolated:
  assumes "perc_wf bvh_root (nElements bvh_root)"
    and "BlockClusterTree_ctor contains kern bvh_root sepCoeff s = Inr t"
    and "(e, m) \<in> set (leaf_list bvh_root)"
  shows "length (Af_1 t) = nElements bvh_root \<and>
         Af_1 t ! e = m * percolated_row kern s leaf_mass_sum (admissiblePairs t) e"
  using Af_1_rows[OF assms(1,2)] assms(3) by blast

theorem C3_Af1_percolated_witness:
  "perc_wf ex_root (nElements ex_root) \<and>
   BlockClusterTree_ctor boxContainsPoint MetricDistanceTermFrac ex_root (1 / 4) 1 = Inr ex_bct \<and>
   (0, 1) \<in> set (leaf_list ex_root) \<and>
   length (Af_1 ex_bct) = nElements ex_root \<and>
   Af_1 ex_bct ! 0 =
     1 * percolated_row MetricDistanceTermFrac 1 leaf_mass_sum (admissiblePairs ex_bct) 0"
proof -
  have m: "(0, 1) \<in> set (leaf_list ex_root)"
    by (simp add: ex_root_def ex_L_def ex_LL_def ex_LR_def ex_R_def leaf_cluster_def)
  from C3_Af1_percolated[OF ex_perc_wf ex_ctor m] ex_perc_wf ex_ctor m show ?thesis by blast
qed

section \<open>Rounding to double\<close>

lemma binade_Some:
  assumes "- 1022 \<le> e" "e \<le> 1023" "e = - 1022 \<or> 2 powi e \<le> \<bar>x\<bar>" "\<bar>x\<bar> < 2 powi (e + 1)"
  shows "binade x = Some e"
proof -
  let ?P = "\<lambda>e. \<bar>x\<bar> < 2 powi (e + 1)"
  let ?i = "nat (e - emin)"
  have r: "emin \<le> e" "e \<le> emax" using assms(1,2) by (simp_all add: emin_def emax_def)
  have len: "?i < length [emin..emax]" using r by simp
  have nth: "[emin..emax] ! ?i = e" using r by (simp add: nth_upto)
  have before: "\<not> ?P ([emin..emax] ! j)" if "j < ?i" for j
  proof -
    from that r have j: "[emin..emax] ! j = emin + int j" by (simp add: nth_upto)
    from that have lt: "emin + int j + 1 \<le> e" by linarith
    from that have "e \<noteq> emin" by linarith
    with assms(3) have "2 powi e \<le> \<bar>x\<bar>" by (simp add: emin_def)
    moreover have "(2::real) powi (emin + int j + 1) \<le> 2 powi e"
      using lt by (intro power_int_increasing) simp_all
    ultimately show ?thesis unfolding j by linarith
  qed
  have "?i < length [emin..emax] \<and> ?P ([emin..emax] ! ?i) \<and> e = [emin..emax] ! ?i \<and>
        (\<forall>j<?i. \<not> ?P ([emin..emax] ! j))"
    using len before assms(4) unfolding nth by blast
  then show ?thesis unfolding binade_def find_Some_iff by blast
qed

lemma binade_None:
  assumes "2 ^ 1024 \<le> \<bar>x\<bar>"
  shows "binade x = None"
proof -
  have "\<not> \<bar>x\<bar> < 2 powi (e + 1)" if "e \<in> set [emin..emax]" for e :: int
  proof -
    from that have "e + 1 \<le> 1024" by (simp add: emax_def)
    then have "(2::real) powi (e + 1) \<le> 2 powi 1024"
      by (intro power_int_increasing) simp_all
    with assms show ?thesis by simp
  qed
  then show ?thesis unfolding binade_def find_None_iff by blast
qed

lemma binade_cases:
  assumes "\<bar>x\<bar> < 2 ^ 1024"
  obtains b where "binade x = Some b" "- 1022 \<le> b" "b \<le> 1023" "\<bar>x\<bar> < 2 powi (b + 1)"
    "b = - 1022 \<or> 2 powi b \<le> \<bar>x\<bar>"
proof -
  let ?P = "\<lambda>e. \<bar>x\<bar> < 2 powi (e + 1)"
  have "emax \<in> set [emin..emax]" by (simp add: emin_def emax_def)
  moreover have "?P emax" using assms by (simp add: emax_def)
  ultimately have "binade x \<noteq> None" unfolding binade_def find_None_iff by blast
  then obtain b where b: "binade x = Some b" by blast
  then obtain i where i: "i < length [emin..emax]" "?P ([emin..emax] ! i)"
    "b = [emin..emax] ! i" "\<forall>j<i. \<not> ?P ([emin..emax] ! j)"
    unfolding binade_def find_Some_iff by blast
  from i(1) have bi: "b = emin + int i" unfolding i(3) by (simp add: nth_upto)
  have lo: "b = - 1022 \<or> 2 powi b \<le> \<bar>x\<bar>"
  proof (cases i)
    case 0
    with bi show ?thesis by (simp add: emin_def)
  next
    case (Suc j)
    with i(1) have "[emin..emax] ! j = emin + int j" by (simp add: nth_upto)
    moreover from Suc i(4) have "\<not> ?P ([emin..emax] ! j)" by simp
    ultimately have "2 powi (emin + int j + 1) \<le> \<bar>x\<bar>" by simp
    moreover have "emin + int j + 1 = b" using bi Suc by simp
    ultimately show ?thesis by simp
  qed
  from i(1) bi have r: "- 1022 \<le> b" "b \<le> 1023" by (simp_all add: emin_def emax_def)
  from i(2) have P: "\<bar>x\<bar> < 2 powi (b + 1)" unfolding i(3) .
  show thesis by (rule that[OF b r P lo])
qed

lemma round_even_int: "round_even (of_int n) = n"
  by (simp add: round_even_def)

lemma to_double_rounds:
  assumes "binade x = Some b" "round_even (x / 2 powi (b - 52)) = n"
    and "\<bar>of_int n * 2 powi (b - 52)\<bar> < (2::real) ^ 1024"
  shows "to_double x = Fin (of_int n * 2 powi (b - 52))"
  using assms by (simp add: to_double_def Let_def)

lemma to_double_overflow: "2 ^ 1024 \<le> x \<Longrightarrow> to_double x = PInf"
  by (simp add: to_double_def binade_None)

text \<open>A number of the form \<open>k * 2^e\<close> with \<open>\<bar>k\<bar> < 2^53\<close> in the exponent range is a
  double, and rounding leaves it as it is.\<close>

lemma to_double_dyadic:
  assumes k: "\<bar>k\<bar> < 2 ^ 53" and e: "- 1074 \<le> e" "e \<le> 971"
  shows "to_double (of_int k * 2 powi e) = Fin (of_int k * 2 powi e)"
proof -
  let ?x = "of_int k * 2 powi e :: real"
  have ax: "\<bar>?x\<bar> = of_int \<bar>k\<bar> * 2 powi e" by (simp add: abs_mult)
  have "of_int \<bar>k\<bar> < (2::real) ^ 53" using k by (metis of_int_less_numeral_power_cancel_iff)
  then have "\<bar>?x\<bar> < 2 ^ 53 * 2 powi e" unfolding ax by (simp add: mult_strict_right_mono)
  also have "\<dots> = 2 powi (53 + e)" by (simp add: power_int_add)
  finally have lt: "\<bar>?x\<bar> < 2 powi (53 + e)" .
  have "(2::real) powi (53 + e) \<le> 2 powi 1024" using e by (intro power_int_increasing) simp_all
  with lt have fin: "\<bar>?x\<bar> < 2 ^ 1024" by simp
  from binade_cases[OF fin] obtain b where b: "binade ?x = Some b" "- 1022 \<le> b"
    "b = - 1022 \<or> 2 powi b \<le> \<bar>?x\<bar>" by blast
  have be: "b - 52 \<le> e"
  proof (cases "b = - 1022")
    case True
    with e show ?thesis by simp
  next
    case False
    with b(3) lt have "(2::real) powi b < 2 powi (53 + e)" by linarith
    then have "b < 53 + e"
      by (metis linorder_not_less power_int_increasing one_le_numeral)
    then show ?thesis by simp
  qed
  define d where "d = nat (e - (b - 52))"
  have ed: "e = (b - 52) + int d" using be by (simp add: d_def)
  have q: "?x / 2 powi (b - 52) = of_int (k * 2 ^ d)"
    unfolding ed by (simp add: power_int_add)
  have r: "round_even (?x / 2 powi (b - 52)) = k * 2 ^ d" unfolding q by (rule round_even_int)
  have bk: "of_int (k * 2 ^ d) * 2 powi (b - 52) = ?x"
    unfolding ed by (simp add: power_int_add)
  from to_double_rounds[OF b(1) r] fin show ?thesis unfolding bk by simp
qed

lemma to_double_int: "\<bar>k\<bar> < 2 ^ 53 \<Longrightarrow> to_double (of_int k) = Fin (of_int k)"
  using to_double_dyadic[of k 0] by simp

section \<open>Values that round, and values that do not\<close>

lemma to_double_0: "to_double 0 = Fin 0"
  using to_double_int[of 0] by simp

lemma to_double_1: "to_double 1 = Fin 1"
  using to_double_int[of 1] by simp

lemma to_double_numeral:
  "numeral n < (2::int) ^ 53 \<Longrightarrow> to_double (numeral n) = Fin (numeral n)"
  using to_double_int[of "numeral n"] by simp

lemma to_double_neg_numeral:
  "numeral n < (2::int) ^ 53 \<Longrightarrow> to_double (- numeral n) = Fin (- numeral n)"
  using to_double_int[of "- numeral n"] by simp

lemma to_double_half:
  "numeral n < (2::int) ^ 53 \<Longrightarrow> to_double (numeral n / 2) = Fin (numeral n / 2)"
  using to_double_dyadic[of "numeral n" "- 1"] by (simp add: power_int_minus field_simps)

lemma to_double_one_half: "to_double (1 / 2) = Fin (1 / 2)"
  using to_double_dyadic[of 1 "- 1"] by (simp add: power_int_minus field_simps)

lemmas to_double_small =
  to_double_0 to_double_1 to_double_numeral to_double_neg_numeral to_double_half
  to_double_one_half

section \<open>The doubles of the examples\<close>

lemma far_pos: "0 < far" by (simp add: far_def)

lemma to_double_far: "to_double far = Fin far"
  using to_double_dyadic[of 1 512] by (simp add: far_def)

lemma to_double_far2: "to_double (2 * far) = Fin (2 * far)"
  using to_double_dyadic[of 1 513] by (simp add: far_def)

lemma to_double_far_sq: "to_double (far * far) = PInf"
  by (rule to_double_overflow) (simp add: far_def)

lemma to_double_far_sq4: "to_double (4 * (far * far)) = PInf"
  by (rule to_double_overflow) (simp add: far_def)

lemma round_even_tie_up:
  "round_even ((2 + 3 / 2 ^ 52) / 2 powi (1 - 52)) = 2 ^ 52 + 2"
  by (simp add: round_even_def power_int_minus Let_def)

lemma to_double_near_sum: "to_double (near_a + near_b) = Fin (2 * near_b)"
proof -
  have x: "near_a + near_b = 2 + 3 / 2 ^ 52" by (simp add: near_a_def near_b_def)
  have b: "binade (2 + 3 / 2 ^ 52) = Some 1"
    by (rule binade_Some) simp_all
  have "to_double (2 + 3 / 2 ^ 52) = Fin (of_int (2 ^ 52 + 2) * 2 powi (1 - 52))"
    by (rule to_double_rounds[OF b round_even_tie_up]) (simp add: power_int_minus)
  also have "of_int (2 ^ 52 + 2) * 2 powi (1 - 52) = 2 * near_b"
    by (simp add: near_b_def power_int_minus)
  finally show ?thesis unfolding x .
qed



lemma round_even_threshold:
  "round_even ((1 / 10 ^ 10) / 2 powi (- 34 - 52)) = 7737125245533627"
  by (simp add: round_even_def power_int_minus Let_def)

lemma to_double_threshold: "to_double (1 / 10 ^ 10) = Fin (7737125245533627 / 2 ^ 86)"
proof -
  have b: "binade (1 / 10 ^ 10) = Some (- 34)"
    by (rule binade_Some) (simp_all add: power_int_minus)
  have "to_double (1 / 10 ^ 10) = Fin (of_int 7737125245533627 * 2 powi (- 34 - 52))"
    by (rule to_double_rounds[OF b round_even_threshold]) (simp add: power_int_minus)
  then show ?thesis by (simp add: power_int_minus)
qed


lemma near_order: "near_a < near_b" "0 < near_a" "0 < near_b"
  by (simp_all add: near_a_def near_b_def)

lemma to_double_near_b: "to_double near_b = Fin near_b"
  using to_double_dyadic[of "2 ^ 51 + 1" "- 51"] by (simp add: near_b_def power_int_minus field_simps)

lemma to_double_near_diff: "to_double (near_b - near_a) = Fin tiny"
  using to_double_dyadic[of 1 "- 52"] by (simp add: near_a_def near_b_def tiny_def power_int_minus)

lemma tiny_pos: "0 < tiny"
  by (simp add: tiny_def)

lemma to_double_tiny_sq: "to_double (tiny * tiny) = Fin (tiny * tiny)"
  using to_double_dyadic[of 1 "- 104"] by (simp add: tiny_def power_int_minus)





lemmas bvh_d_eval =
  AxisSplittingPlane_d_def body_at_def GetCoordFromBody_d_def sort_d_def chosen_splitIndex_d_def
  sumSquares_d_def d_sub_def coord_at_d_def SIZE_MAX_def NextAxis_def upt_0_2 upt_0_3
  averageDataFromChildren_d_def vd_add_def vd_smult_def vd_sdiv_def vd_zero_def to_double_small

lemma far_coords:
  "body_coords_d far_bodies 0 = Inr [Fin 0, Fin far, Fin (2 * far)]"
  "sort_d [Fin 0, Fin far, Fin (2 * far)] = [Fin 0, Fin far, Fin (2 * far)]"
  using far_pos by (simp_all add: far_bodies_def bvh_d_eval)

lemma far_sumSquares:
  "map (sumSquares_d [Fin 0, Fin far, Fin (2 * far)]) [0, 1, 2] = [PInf, PInf, PInf]"
  using far_pos
  by (simp add: bvh_d_eval to_double_far to_double_far2 to_double_far_sq to_double_far_sq4)

lemma far_index: "chosen_splitIndex_d [Fin 0, Fin far, Fin (2 * far)] = SIZE_MAX"
  using far_pos
  by (simp add: bvh_d_eval to_double_far to_double_far2 to_double_far_sq to_double_far_sq4)

lemma far_plane: "AxisSplittingPlane_d far_bodies 0 = Inl OutOfBounds"
  using far_pos
  by (simp add: far_bodies_def bvh_d_eval to_double_far to_double_far2 to_double_far_sq
      to_double_far_sq4)

lemma near_plane_0: "AxisSplittingPlane_d near_bodies 0 = Inr (Fin near_b)"
  using near_order tiny_pos
  by (simp add: near_bodies_def bvh_d_eval to_double_near_b to_double_near_diff
      to_double_tiny_sq to_double_near_sum)

lemma near_plane_12:
  "AxisSplittingPlane_d near_bodies 1 = Inr (Fin 0)"
  "AxisSplittingPlane_d near_bodies 2 = Inr (Fin 0)"
  by (simp_all add: near_bodies_def bvh_d_eval)

lemma near_split:
  "split_points_d near_bodies 0 (Fin near_b) ([], []) = Inr (near_bodies, [])"
  "split_points_d near_bodies 1 (Fin 0) ([], []) = Inr (near_bodies, [])"
  "split_points_d near_bodies 2 (Fin 0) ([], []) = Inr (near_bodies, [])"
  using near_order by (simp_all add: near_bodies_def body_at_def GetCoordFromBody_d_def)

section \<open>The line search on a NaN energy\<close>

lemma to_double_m1: "to_double (- 1) = Fin (- 1)"
  using to_double_int[of "- 1"] by simp

lemma threshold_value: "LS_STEP_THRESHOLD_d = Fin (7737125245533627 / 2 ^ 86)"
  by (simp only: LS_STEP_THRESHOLD_d_def to_double_threshold)

lemma hole_norm: "matrix_norm_d [Vec3d (Fin 1) (Fin 0) (Fin 0)] = Fin 1"
  by (simp add: matrix_norm_d_def to_double_small)

lemma hole_loop:
  "LineSearch_loop_d energy_hole [Vec3d (Fin 1) (Fin 0) (Fin 0)] (Fin 0) (Fin 1) (Fin 1) (Fin 1) 0
     \<lparr>inputVertexPositions_d = [Vec3d (Fin 0) (Fin 0) (Fin 0)],
      origPositions_d = [Vec3d (Fin 0) (Fin 0) (Fin 0)]\<rparr> =
   Some (Inr (Fin 1, 0,
     \<lparr>inputVertexPositions_d = [Vec3d (Fin (- 1)) (Fin 0) (Fin 0)],
      origPositions_d = [Vec3d (Fin 0) (Fin 0) (Fin 0)]\<rparr>))"
  by (subst LineSearch_loop_d.simps)
     (simp add: threshold_value SetGradientStep_d_def nVertices_d_def GetRow_d_def
        vd_sub_def vd_smult_def d_sub_def to_double_small to_double_m1 energy_hole_def)

lemma hole_step:
  "StepLineSearch_d energy_hole differential_unit origin_flow =
     Some (Inr (Fin 1,
       \<lparr>inputVertexPositions_d = [Vec3d (Fin (- 1)) (Fin 0) (Fin 0)],
        origPositions_d = [Vec3d (Fin 0) (Fin 0) (Fin 0)]\<rparr>))"
proof -
  have s: "SaveCurrentPositions_d origin_flow =
             \<lparr>inputVertexPositions_d = [Vec3d (Fin 0) (Fin 0) (Fin 0)],
              origPositions_d = [Vec3d (Fin 0) (Fin 0) (Fin 0)]\<rparr>"
    by (simp add: SaveCurrentPositions_d_def origin_flow_def nVertices_d_def vd_zero_def)
  have e0: "energy_hole [Vec3d (Fin 0) (Fin 0) (Fin 0)] = Fin 0" by (simp add: energy_hole_def)
  have g: "differential_unit (inputVertexPositions_d origin_flow) = [Vec3d (Fin 1) (Fin 0) (Fin 0)]"
    by (simp add: differential_unit_def)
  have i: "d_div (Fin 1) (Fin 1) = Fin 1" by (simp add: to_double_small)
  have n: "\<not> d_lt (Fin 1) (to_double (1 / 10 ^ 10))"
    unfolding to_double_threshold by simp
  have t: "\<not> d_le (Fin 1) LS_STEP_THRESHOLD_d" unfolding threshold_value by simp
  show ?thesis
    unfolding StepLineSearch_d_def LineSearchStep_d_def Let_def g hole_norm i s
    using n t by (simp add: e0 hole_loop)
qed

section \<open>Builds in double arithmetic\<close>

lemma near_length: "length near_bodies = 2"
  by (simp add: near_bodies_def)

lemma near_never:
  assumes "BVHNode6D_ctor_d near_bodies ax = Some y" "ax \<in> {0, 1, 2}"
  shows False
proof -
  have "ps = near_bodies \<longrightarrow> a \<in> {0, 1, 2} \<longrightarrow> False"
    if "BVHNode6D_ctor_d ps a = Some y" for ps a y
  proof (rule BVHNode6D_ctor_d.raw_induct[
        where P = "\<lambda>ps a y. ps = near_bodies \<longrightarrow> a \<in> {0, 1, 2} \<longrightarrow> False", OF _ that],
      goal_cases)
    case (1 f ps a y)
    show ?case
    proof (intro impI)
      assume ps: "ps = near_bodies" and a: "a \<in> {0, 1, 2}"
      from a obtain sp where sp: "AxisSplittingPlane_d near_bodies a = Inr sp"
        and lg: "split_points_d near_bodies a sp ([], []) = Inr (near_bodies, [])"
        using near_plane_0 near_plane_12 near_split by auto
      from 1(2) obtain r1 where r1: "f near_bodies (NextAxis a) = Some r1"
        unfolding ps by (cases "f near_bodies (NextAxis a)") (simp_all add: near_length sp lg)
      have "NextAxis a \<in> {0, 1, 2}" by (rule NextAxis_range)
      with 1(1)[OF r1] show False by simp
    qed
  qed
  with assms show False by blast
qed

lemma near_ctor: "BVHNode6D_ctor_d near_bodies 0 = None"
  using near_never[of 0] by (cases "BVHNode6D_ctor_d near_bodies 0") simp_all



section \<open>What a tree built in double arithmetic looks like\<close>













section \<open>The claims in double arithmetic\<close>




text \<open>
  C9 fails on the code.  The two bodies of \<open>near_bodies\<close> have distinct barycenters,
  \<open>(1 + 2^-52, 0, 0)\<close> and \<open>(1 + 2^-51, 0, 0)\<close>, both doubles.  On axis 0 the sum of the two
  coordinates rounds to \<open>2 + 2^-50\<close>, so the split point is the larger coordinate and both
  bodies go to the lesser half; on axes 1 and 2 they share the coordinate 0 and again both
  go to the lesser half.  The constructor calls itself on the same two bodies for ever:
  it returns nothing.
\<close>

theorem C9_close_barycenters_never_return:
  "point_d (near_bodies ! 0) \<noteq> point_d (near_bodies ! 1) \<and>
   to_double near_a = Fin near_a \<and> to_double near_b = Fin near_b \<and>
   AxisSplittingPlane_d near_bodies 0 = Inr (Fin near_b) \<and>
   split_points_d near_bodies 0 (Fin near_b) ([], []) = Inr (near_bodies, []) \<and>
   split_points_d near_bodies 1 (Fin 0) ([], []) = Inr (near_bodies, []) \<and>
   split_points_d near_bodies 2 (Fin 0) ([], []) = Inr (near_bodies, []) \<and>
   BVHNode6D_ctor_d near_bodies 0 = None"
proof -
  have d: "point_d (near_bodies ! 0) \<noteq> point_d (near_bodies ! 1)"
    using near_order(1) by (simp add: near_bodies_def body_at_def)
  have a: "to_double near_a = Fin near_a"
    using to_double_dyadic[of "2 ^ 52 + 1" "- 52"]
    by (simp add: near_a_def power_int_minus field_simps)
  from d a to_double_near_b near_plane_0 near_split near_ctor show ?thesis by simp
qed

text \<open>
  C10 fails on the code.  The three bodies of \<open>far_bodies\<close> have the finite coordinates
  0, \<open>2^512\<close> and \<open>2^513\<close> on axis 0.  Every candidate has a width of at least \<open>2^512\<close>,
  whose square is above the largest double: every \<open>sumSquares\<close> is \<open>+infinity\<close>, none is
  below the initial \<open>minWidths = INFINITY\<close>, and \<open>splitIndex\<close> keeps its initial value
  \<open>(size_t) -1\<close>, which is not at most \<open>nPoints - 2 = 1\<close>.  The access \<open>coords[splitIndex]\<close>
  is outside the vector.
\<close>

theorem C10_overflow_leaves_no_index:
  "length far_bodies = 3 \<and>
   body_coords_d far_bodies 0 = Inr [Fin 0, Fin far, Fin (2 * far)] \<and>
   sort_d [Fin 0, Fin far, Fin (2 * far)] = [Fin 0, Fin far, Fin (2 * far)] \<and>
   map (sumSquares_d [Fin 0, Fin far, Fin (2 * far)]) [0, 1, 2] = [PInf, PInf, PInf] \<and>
   chosen_splitIndex_d [Fin 0, Fin far, Fin (2 * far)] = SIZE_MAX \<and>
   \<not> SIZE_MAX \<le> length far_bodies - 2 \<and>
   coord_at_d [Fin 0, Fin far, Fin (2 * far)] SIZE_MAX = Inl OutOfBounds \<and>
   AxisSplittingPlane_d far_bodies 0 = Inl OutOfBounds"
proof -
  have l: "length far_bodies = 3" by (simp add: far_bodies_def)
  have "\<not> SIZE_MAX \<le> length far_bodies - 2" unfolding l by (simp add: SIZE_MAX_def)
  moreover have "coord_at_d [Fin 0, Fin far, Fin (2 * far)] SIZE_MAX = Inl OutOfBounds"
    by (simp add: coord_at_d_def SIZE_MAX_def)
  ultimately show ?thesis
    using l far_coords far_sumSquares far_index far_plane by simp
qed

text \<open>
  C7 fails on the code.  \<open>StepLineSearch\<close> on one vertex at the origin, with the gradient
  \<open>(1, 0, 0)\<close> and an energy that is 0 at the origin and NaN at \<open>(-1, 0, 0)\<close>, returns the
  step size 1 and leaves the vertex at \<open>(-1, 0, 0)\<close>: the decrease \<open>0 - NaN\<close> is NaN, the
  test \<open>decrease < targetDecrease\<close> is false, and the loop leaves through \<open>break\<close>.  At the
  accepted step the Armijo inequality \<open>targetDecrease <= decrease\<close> is false, and the
  energy has not decreased.
\<close>

theorem C7_nan_energy_accepted:
  "StepLineSearch_d energy_hole differential_unit origin_flow =
     Some (Inr (Fin 1,
       \<lparr>inputVertexPositions_d = [Vec3d (Fin (- 1)) (Fin 0) (Fin 0)],
        origPositions_d = [Vec3d (Fin 0) (Fin 0) (Fin 0)]\<rparr>)) \<and>
   d_lt (Fin 0) (Fin 1) \<and>
   energy_hole (inputVertexPositions_d origin_flow) = Fin 0 \<and>
   energy_hole [Vec3d (Fin (- 1)) (Fin 0) (Fin 0)] = NaN \<and>
   \<not> d_le (d_mul (d_mul (d_mul sigma_d (Fin 1)) (matrix_norm_d [Vec3d (Fin 1) (Fin 0) (Fin 0)]))
               (Fin 1))
            (d_sub (energy_hole (inputVertexPositions_d origin_flow))
               (energy_hole [Vec3d (Fin (- 1)) (Fin 0) (Fin 0)])) \<and>
   \<not> d_lt (energy_hole [Vec3d (Fin (- 1)) (Fin 0) (Fin 0)])
            (energy_hole (inputVertexPositions_d origin_flow))"
proof -
  have e0: "energy_hole (inputVertexPositions_d origin_flow) = Fin 0"
    by (simp add: energy_hole_def origin_flow_def)
  have e1: "energy_hole [Vec3d (Fin (- 1)) (Fin 0) (Fin 0)] = NaN"
    by (simp add: energy_hole_def)
  have n: "d_sub (Fin 0) NaN = NaN" by (simp add: d_sub_def)
  have le: "\<not> d_le x NaN" for x by (cases x) simp_all
  show ?thesis unfolding e0 e1 n using hole_step le by simp
qed

end
